theory Spec2Isabelle
  imports Complex_Main "HOL-Library.Word" "HOL-Library.Log_Nat"
begin

unbundle bit_operations_syntax

section \<open>Raw memory\<close>

text \<open>
  The allocator of \<^verbatim>\<open>mm.c\<close> works on raw bytes of a 64-bit address space. Addresses and
  \<^verbatim>\<open>uint64_t\<close>/\<^verbatim>\<open>size_t\<close> values are 64-bit words (arithmetic wraps), memory is a
  function from addresses to bytes. Words are stored little-endian, as on the x86-64
  machines the program is written for.
\<close>

type_synonym u64 = "64 word"
type_synonym addr = "64 word"
type_synonym byte = "8 word"
type_synonym memory = "addr \<Rightarrow> byte"

text \<open>\<^verbatim>\<open>mem_memset(p, c, n)\<close> and \<^verbatim>\<open>mem_memcpy(dst, src, n)\<close> on arena memory. The copy
  reads the source bytes of the memory before the call.\<close>

definition mem_memset :: "memory \<Rightarrow> addr \<Rightarrow> byte \<Rightarrow> u64 \<Rightarrow> memory" where
  "mem_memset m p c n = (\<lambda>a. if a - p < n then c else m a)"

definition mem_memcpy :: "memory \<Rightarrow> addr \<Rightarrow> addr \<Rightarrow> u64 \<Rightarrow> memory" where
  "mem_memcpy m dst src n = (\<lambda>a. if a - dst < n then m (src + (a - dst)) else m a)"

text \<open>Byte \<open>i\<close> of a word, and the word made of a list of bytes, lowest byte first.\<close>

definition byte_at :: "u64 \<Rightarrow> nat \<Rightarrow> byte" where
  "byte_at v i = ucast (drop_bit (8 * i) v)"

fun le_word :: "byte list \<Rightarrow> u64" where
  "le_word [] = 0"
| "le_word (b # bs) = ucast b OR push_bit 8 (le_word bs)"

text \<open>\<^verbatim>\<open>mem_memcpy(&space, ptr, WORDSIZE)\<close>: read the word at \<open>p\<close> into a local variable.\<close>

definition load64 :: "memory \<Rightarrow> addr \<Rightarrow> u64" where
  "load64 m p = le_word (map (\<lambda>i. m (p + of_nat i)) [0..<8])"

text \<open>\<^verbatim>\<open>mem_memcpy(ptr, &space, WORDSIZE)\<close>: write a local word to \<open>p\<close>.\<close>

definition store64 :: "memory \<Rightarrow> addr \<Rightarrow> u64 \<Rightarrow> memory" where
  "store64 m p v = (\<lambda>a. if a - p < 8 then byte_at v (unat (a - p)) else m a)"

section \<open>Block codec\<close>

text \<open>\<^verbatim>\<open>ALIGNMENT\<close> is 16 and \<^verbatim>\<open>WORDSIZE\<close> is 8. A parameter the source calls
  \<^verbatim>\<open>length\<close> is \<open>len\<close> here, \<^verbatim>\<open>size\<close> is \<open>sz\<close> and \<^verbatim>\<open>class\<close> is \<open>cls\<close>.\<close>

definition align :: "u64 \<Rightarrow> u64" where
  "align x = 16 * ((x + 16 - 1) div 16)"

definition align_new :: "u64 \<Rightarrow> u64" where
  "align_new x = 16 * ((x + 8 + 16 - 1) div 16) - 8"

definition getLength :: "memory \<Rightarrow> addr \<Rightarrow> u64" where
  "getLength m ptr = (load64 m ptr div 8) * 8"

definition getLeftAllocated :: "memory \<Rightarrow> addr \<Rightarrow> bool" where
  "getLeftAllocated m ptr = (let space = load64 m ptr in space mod 4 = 2 \<or> space mod 4 = 3)"

definition encode :: "u64 \<Rightarrow> bool \<Rightarrow> bool \<Rightarrow> u64" where
  "encode len currAllocated leftAllocated =
     (let space = len;
          space = (if currAllocated then space OR 1 else space);
          space = (if leftAllocated then space OR 2 else space)
      in space)"

definition construct_new :: "memory \<Rightarrow> addr \<Rightarrow> u64 \<Rightarrow> bool \<Rightarrow> bool \<Rightarrow> memory" where
  "construct_new m ptr len currAllocated leftAllocated =
     store64 m ptr (encode len currAllocated leftAllocated)"

definition deconstruct_new :: "memory \<Rightarrow> addr \<Rightarrow> u64 \<times> bool \<times> bool" where
  "deconstruct_new m ptr =
     (let space = load64 m ptr
      in ((space div 8) * 8, space mod 2 = 1, space mod 4 = 2 \<or> space mod 4 = 3))"

definition setLeftAllocated :: "memory \<Rightarrow> addr \<Rightarrow> bool \<Rightarrow> memory" where
  "setLeftAllocated m ptr leftAllocated =
     (case deconstruct_new m ptr of
        (len, currAllocated, d) \<Rightarrow> construct_new m ptr len currAllocated leftAllocated)"

section \<open>Size classes\<close>

text \<open>
  \<^verbatim>\<open>ceil(log(x)/log(2))\<close> of the source is computed in double precision; the model takes its
  mathematical value, the least \<open>k\<close> with \<open>x \<le> 2 ^ k\<close>, computed on naturals. Lemma
  \<open>ceil_log2_real\<close> below relates it to the real logarithm.
\<close>

fun ceil_log2 :: "nat \<Rightarrow> nat" where
  "ceil_log2 n = (if n \<le> 1 then 0 else Suc (ceil_log2 ((n + 1) div 2)))"

declare ceil_log2.simps [simp del]

definition calculateClass_new :: "u64 \<Rightarrow> u64" where
  "calculateClass_new requiredBytes =
     (let aligned_to_16 = requiredBytes + 8
      in if aligned_to_16 \<le> 256 then aligned_to_16 div 16 - 1
         else if aligned_to_16 \<le> 32768 then of_nat (ceil_log2 (unat aligned_to_16)) + 7
         else 23)"

section \<open>Allocator state and the arena provider\<close>

text \<open>
  The globals of \<^verbatim>\<open>mm.c\<close> (\<open>initialized\<close>, \<open>heap_start\<close>), the memory, and the state of the
  arena provider: the arena is the byte range from \<open>mem_lo\<close> up to, not including,
  \<open>mem_brk\<close>, and can grow up to \<open>mem_max\<close>. \<open>sbrk_calls\<close> counts the growth requests made so
  far; no code reads it.
\<close>

record state =
  initialized :: bool
  heap_start :: addr
  mem :: memory
  mem_lo :: addr
  mem_brk :: addr
  mem_max :: addr
  sbrk_calls :: nat

text \<open>
  Modelled from the spec: \<^verbatim>\<open>memlib.c\<close>, the arena provider behind \<^verbatim>\<open>mem_heap_lo\<close>,
  \<^verbatim>\<open>mem_heap_hi\<close> and \<^verbatim>\<open>mem_sbrk\<close>, is not among the sources. The spec gives it as
  "get current arena bounds" (the high bound is the last valid byte) and "extend arena by N
  bytes, returning the old top or failure". Failure is \<open>None\<close> here. The pointer that the C
  function hands to its caller is \<open>sbrk_ptr\<close> of that: the old top, or \<^verbatim>\<open>(void *)-1\<close> on
  failure, the value \<^verbatim>\<open>allocateExtra\<close> tests for. \<^verbatim>\<open>mm_init\<close> tests the same pointer against
  \<^verbatim>\<open>NULL\<close>, so a refused request does not stop it.

  Memory is a total function: the model has no faults, and a read or write outside the
  arena is an ordinary read or write. What the model computes for a call that leaves the
  arena (a release before \<^verbatim>\<open>mm_init\<close>, a wild pointer) is therefore no statement about the
  program, and no theorem below is about such a call unless it says so.
\<close>

definition mem_heap_lo :: "state \<Rightarrow> addr" where
  "mem_heap_lo st = mem_lo st"

definition mem_heap_hi :: "state \<Rightarrow> addr" where
  "mem_heap_hi st = mem_brk st - 1"

definition mem_sbrk :: "state \<Rightarrow> u64 \<Rightarrow> addr option \<times> state" where
  "mem_sbrk st incr =
     (if unat (mem_brk st) + unat incr \<le> unat (mem_max st)
      then (Some (mem_brk st),
            st\<lparr>mem_brk := mem_brk st + incr, sbrk_calls := Suc (sbrk_calls st)\<rparr>)
      else (None, st\<lparr>sbrk_calls := Suc (sbrk_calls st)\<rparr>))"

definition sbrk_ptr :: "addr option \<Rightarrow> addr" where
  "sbrk_ptr r = (case r of None \<Rightarrow> - 1 | Some p \<Rightarrow> p)"

text \<open>\<^verbatim>\<open>in_heap\<close> and \<^verbatim>\<open>aligned\<close>, the two checks of \<^verbatim>\<open>mm_checkheap\<close>.\<close>

definition in_heap :: "state \<Rightarrow> addr \<Rightarrow> bool" where
  "in_heap st p = (p \<le> mem_heap_hi st \<and> p \<ge> mem_heap_lo st)"

definition aligned :: "addr \<Rightarrow> bool" where
  "aligned p = (align p = p)"

section \<open>Initialisation\<close>

definition mm_init :: "state \<Rightarrow> bool \<times> state" where
  "mm_init st =
     (case mem_sbrk st (26 * 8) of
        (r, st1) \<Rightarrow>
          if sbrk_ptr r = 0 then (False, st1)
          else
            (let hs = mem_heap_lo st1;
                 m1 = mem_memset (mem st1) hs 0 (26 * 8);
                 m2 = construct_new m1 (hs + 24 * 8) 0 True True;
                 m3 = construct_new m2 (hs + 25 * 8) 0 True True
             in (True, st1\<lparr>heap_start := hs, mem := m3, initialized := True\<rparr>)))"

section \<open>Free-list index\<close>

definition insertIntoFreeList :: "memory \<Rightarrow> addr \<Rightarrow> addr \<Rightarrow> memory" where
  "insertIntoFreeList m class_addr curr_addr =
     (let first_addr = load64 m class_addr
      in if first_addr \<noteq> 0
         then (let m1 = store64 m (first_addr + 8) curr_addr;
                   m2 = store64 m1 class_addr curr_addr;
                   m3 = mem_memset m2 (curr_addr + 8) 0 8;
                   m4 = store64 m3 (curr_addr + 2 * 8) first_addr
               in m4)
         else (let m1 = store64 m class_addr curr_addr;
                   m2 = mem_memset m1 (curr_addr + 8) 0 8;
                   m3 = mem_memset m2 (curr_addr + 2 * 8) 0 8
               in m3))"

definition removeFromFreeList :: "addr \<Rightarrow> memory \<Rightarrow> addr \<Rightarrow> u64 \<Rightarrow> memory" where
  "removeFromFreeList hs m start_addr len =
     (let class_addr = hs + calculateClass_new len * 8;
          prev = load64 m (start_addr + 8);
          next = load64 m (start_addr + 2 * 8)
      in if prev = 0 \<and> next \<noteq> 0
         then (let m1 = store64 m class_addr next;
                   m2 = mem_memset m1 (next + 8) 0 8
               in m2)
         else if prev \<noteq> 0 \<and> next \<noteq> 0
         then (let m1 = store64 m (prev + 2 * 8) next;
                   m2 = store64 m1 (next + 8) prev
               in m2)
         else if prev = 0 \<and> next = 0
         then mem_memset m class_addr 0 8
         else mem_memset m (prev + 2 * 8) 0 8)"

section \<open>Release engine\<close>

text \<open>
  \<^verbatim>\<open>free\<close>. The four cases compute the merged block: its length, the address of its class
  head, its start address, and the memory after the unlinking of the merged neighbours and
  the writing of the new header and footer; steps 5 and 6 are shared.
\<close>

definition free :: "state \<Rightarrow> addr \<Rightarrow> state" where
  "free st ptr =
     (if ptr = 0 then st
      else
        (let m = mem st; hs = heap_start st; curr_addr = ptr
         in case deconstruct_new m (curr_addr - 8) of (curr_length, a, left_allocated) \<Rightarrow>
            case deconstruct_new m (curr_addr + curr_length) of (right_length, right_allocated, b) \<Rightarrow>
            case (if \<not> left_allocated then deconstruct_new m (curr_addr - 2 * 8)
                  else (0, False, False)) of (left_length, c, left_left_allocated) \<Rightarrow>
            case
              (if left_allocated \<and> right_allocated then
                 (let total_length = curr_length;
                      class_addr = hs + calculateClass_new total_length * 8;
                      curr_addr = curr_addr - 8;
                      m1 = construct_new m curr_addr total_length False True;
                      m2 = mem_memcpy m1 (curr_addr + total_length) curr_addr 8
                  in (total_length, class_addr, curr_addr, m2))
               else if left_allocated \<and> \<not> right_allocated then
                 (let total_length = curr_length + 8 + right_length;
                      class_addr = hs + calculateClass_new total_length * 8;
                      curr_addr = curr_addr - 8;
                      m0 = (if right_length > 8
                            then removeFromFreeList hs m (curr_addr + curr_length + 8) right_length
                            else m);
                      m1 = construct_new m0 curr_addr total_length False True;
                      m2 = mem_memcpy m1 (curr_addr + total_length) curr_addr 8
                  in (total_length, class_addr, curr_addr, m2))
               else if \<not> left_allocated \<and> right_allocated then
                 (let total_length = left_length + 8 + curr_length;
                      class_addr = hs + calculateClass_new total_length * 8;
                      curr_addr = curr_addr - (2 * 8 + left_length);
                      m0 = (if left_length > 8
                            then removeFromFreeList hs m curr_addr left_length
                            else m);
                      m1 = construct_new m0 curr_addr total_length False left_left_allocated;
                      m2 = mem_memcpy m1 (curr_addr + total_length) curr_addr 8
                  in (total_length, class_addr, curr_addr, m2))
               else
                 (let total_length = left_length + curr_length + right_length + 2 * 8;
                      class_addr = hs + calculateClass_new total_length * 8;
                      curr_addr = curr_addr - (2 * 8 + left_length);
                      m0 = (if left_length > 8
                            then removeFromFreeList hs m curr_addr left_length
                            else m);
                      m0' = (if right_length > 8
                             then removeFromFreeList hs m0
                                    (curr_addr + left_length + curr_length + 2 * 8) right_length
                             else m0);
                      m1 = construct_new m0' curr_addr total_length False left_left_allocated;
                      m2 = mem_memcpy m1 (curr_addr + total_length) curr_addr 8
                  in (total_length, class_addr, curr_addr, m2)))
            of (total_length, class_addr, curr_addr, m2) \<Rightarrow>
              (let m5 = setLeftAllocated m2 (curr_addr + 8 + total_length) False;
                   m6 = (if total_length > 8
                         then insertIntoFreeList m5 class_addr curr_addr
                         else m5)
               in st\<lparr>mem := m6\<rparr>)))"

section \<open>Allocation engine\<close>

text \<open>\<^verbatim>\<open>allocateExtra\<close> and \<^verbatim>\<open>allocateWithinHeap\<close> return the pointer (0 is \<^verbatim>\<open>NULL\<close>) and
  the new state.\<close>

definition allocateExtra :: "state \<Rightarrow> u64 \<Rightarrow> addr \<times> state" where
  "allocateExtra st requiredBytes =
     (let old_epi_addr = mem_heap_hi st - 7;
          new_epi_addr = old_epi_addr + (requiredBytes + 8)
      in case mem_sbrk st (requiredBytes + 8) of
           (r, st1) \<Rightarrow>
             if sbrk_ptr r = - 1 then (0, st1)
             else
               (let m1 = mem_memcpy (mem st1) new_epi_addr old_epi_addr 8;
                    leftAllocated = getLeftAllocated m1 old_epi_addr;
                    m2 = construct_new m1 old_epi_addr requiredBytes True leftAllocated;
                    m3 = setLeftAllocated m2 new_epi_addr True
                in (old_epi_addr + 8, st1\<lparr>mem := m3\<rparr>)))"

definition allocateWithinHeap :: "state \<Rightarrow> addr \<Rightarrow> u64 \<Rightarrow> u64 \<Rightarrow> u64 \<Rightarrow> addr \<times> state" where
  "allocateWithinHeap st start_addr requiredBytes len cls =
     (let m = mem st;
          leftAllocated = getLeftAllocated m start_addr;
          m1 = removeFromFreeList (heap_start st) m start_addr len;
          m2 = construct_new m1 start_addr requiredBytes True leftAllocated
      in if requiredBytes < len
         then (let m3 = construct_new m2 (start_addr + requiredBytes + 8)
                          (len - requiredBytes - 8) False True;
                   m4 = construct_new m3 (start_addr + len) (len - requiredBytes - 8) False True
               in (start_addr + 8, free (st\<lparr>mem := m4\<rparr>) (start_addr + requiredBytes + 2 * 8)))
         else (start_addr + 8, st\<lparr>mem := setLeftAllocated m2 (start_addr + len + 8) True\<rparr>))"

text \<open>
  The inner loop of \<^verbatim>\<open>malloc\<close> walks one class list. It either returns from \<^verbatim>\<open>malloc\<close>
  with a block (\<open>Hit\<close>: the block's address and length) or runs to the end of the list
  (\<open>Done\<close>: the best length and address seen). A list that loops back on itself keeps the
  source in the loop for ever: the walk is a partial function and \<open>None\<close> is "does not
  return".
\<close>

datatype scan_result = Hit addr u64 | Done u64 addr

partial_function (option) scan_list ::
  "memory \<Rightarrow> u64 \<Rightarrow> u64 \<Rightarrow> addr \<Rightarrow> u64 \<Rightarrow> addr \<Rightarrow> scan_result option" where
  "scan_list m cls requiredBytes curr_addr bestLength best_addr =
     (if curr_addr \<noteq> 0 then
        (let len = getLength m curr_addr
         in if cls < 16 then Some (Hit curr_addr len)
            else if requiredBytes = len then Some (Hit curr_addr len)
            else if requiredBytes < len then
              (if bestLength = 0
               then scan_list m cls requiredBytes (load64 m (curr_addr + 2 * 8)) len curr_addr
               else if len < bestLength
               then scan_list m cls requiredBytes (load64 m (curr_addr + 2 * 8)) len curr_addr
               else scan_list m cls requiredBytes (load64 m (curr_addr + 2 * 8))
                      bestLength best_addr)
            else scan_list m cls requiredBytes (load64 m (curr_addr + 2 * 8))
                   bestLength best_addr)
      else Some (Done bestLength best_addr))"

declare scan_list.simps [code]

text \<open>
  The outer loop over the classes. \<open>Found\<close> carries the three arguments
  \<^verbatim>\<open>allocateWithinHeap\<close> is then called with. The second component of the result lists the
  class indices the loop has probed, in order; it is there for the statements about the
  order of the search and no code reads it.
\<close>

datatype search_result = Found addr u64 u64 | NotFound

function class_loop ::
  "addr \<Rightarrow> memory \<Rightarrow> u64 \<Rightarrow> u64 \<Rightarrow> bool \<Rightarrow> (search_result \<times> u64 list) option" where
  "class_loop hs m requiredBytes cls jumped =
     (if cls < 24 then
        (case scan_list m cls requiredBytes (load64 m (hs + cls * 8)) 0 0 of
           None \<Rightarrow> None
         | Some (Hit a l) \<Rightarrow> Some (Found a l cls, [cls])
         | Some (Done bestLength best_addr) \<Rightarrow>
             if bestLength \<noteq> 0 then Some (Found best_addr bestLength cls, [cls])
             else map_option (\<lambda>(r, tr). (r, cls # tr))
                    (if cls < 16 \<and> \<not> jumped
                     then class_loop hs m requiredBytes (cls + 2) True
                     else class_loop hs m requiredBytes (cls + 1) jumped))
      else Some (NotFound, []))"
  by pat_completeness auto
termination
  by (relation "measure (\<lambda>(hs, m, r, c, j). 24 - unat c)") (auto simp: unat_arith_simps)

declare class_loop.simps [simp del]

definition malloc :: "state \<Rightarrow> u64 \<Rightarrow> (addr \<times> state) option" where
  "malloc st sz =
     (if \<not> initialized st \<or> sz \<le> 0 then Some (0, st)
      else
        (let requiredBytes = align_new sz;
             cls = calculateClass_new requiredBytes
         in case class_loop (heap_start st) (mem st) requiredBytes cls False of
              None \<Rightarrow> None
            | Some (Found a l c, tr) \<Rightarrow> Some (allocateWithinHeap st a requiredBytes l c)
            | Some (NotFound, tr) \<Rightarrow> Some (allocateExtra st requiredBytes)))"

section \<open>Resize engine and zeroed allocation\<close>

definition realloc :: "state \<Rightarrow> addr \<Rightarrow> u64 \<Rightarrow> (addr \<times> state) option" where
  "realloc st oldptr sz =
     (if oldptr = 0 then malloc st sz
      else if sz = 0 then Some (0, free st oldptr)
      else
        (let old_payload_addr = oldptr
         in case deconstruct_new (mem st) (old_payload_addr - 8) of
              (original_length, a, left_allocated) \<Rightarrow>
           (let requested_length = align_new sz
            in if requested_length < original_length then
                 (let m1 = construct_new (mem st) (old_payload_addr - 8) requested_length
                             True left_allocated;
                      m2 = construct_new m1 (old_payload_addr + requested_length)
                             (original_length - requested_length - 8) False True;
                      m3 = construct_new m2 (old_payload_addr + original_length - 8)
                             (original_length - requested_length - 8) False True;
                      st1 = free (st\<lparr>mem := m3\<rparr>) (old_payload_addr + requested_length + 8);
                      m4 = setLeftAllocated (mem st1) (old_payload_addr + original_length) False
                  in Some (oldptr, st1\<lparr>mem := m4\<rparr>))
               else if requested_length > original_length then
                 (case malloc st requested_length of
                    None \<Rightarrow> None
                  | Some (newptr, st1) \<Rightarrow>
                      if newptr = 0 then Some (0, st1)
                      else (let m1 = mem_memcpy (mem st1) newptr oldptr original_length
                            in Some (newptr, free (st1\<lparr>mem := m1\<rparr>) oldptr)))
               else Some (oldptr, st))))"

definition calloc :: "state \<Rightarrow> u64 \<Rightarrow> u64 \<Rightarrow> (addr \<times> state) option" where
  "calloc st nmemb sz =
     (let sz = sz * nmemb
      in case malloc st sz of
           None \<Rightarrow> None
         | Some (ptr, st1) \<Rightarrow>
             if ptr \<noteq> 0 then Some (ptr, st1\<lparr>mem := mem_memset (mem st1) ptr 0 sz\<rparr>)
             else Some (ptr, st1))"

section \<open>Example states\<close>

text \<open>
  A provider with an empty arena at address \<open>0x100000\<close> that can grow to one megabyte, all
  of memory zero, the allocator not yet initialised; and the same after \<^verbatim>\<open>mm_init\<close>.
\<close>

definition fresh :: state where
  "fresh = \<lparr>initialized = False, heap_start = 0, mem = (\<lambda>a. 0),
            mem_lo = 0x100000, mem_brk = 0x100000, mem_max = 0x200000, sbrk_calls = 0\<rparr>"

definition heap0 :: state where
  "heap0 = snd (mm_init fresh)"

text \<open>
  The example heap after five more calls: \<^verbatim>\<open>p1 = malloc(800)\<close>, \<^verbatim>\<open>malloc(24)\<close>,
  \<^verbatim>\<open>p3 = malloc(1000)\<close>, \<^verbatim>\<open>free(p1)\<close>, \<^verbatim>\<open>free(p3)\<close>. Its class 17 then lists the block of
  length 1000 first and the block of length 808 second.
\<close>

definition heap5 :: state where
  "heap5 =
     (case malloc heap0 800 of
        None \<Rightarrow> heap0
      | Some (p1, s1) \<Rightarrow>
          (case malloc s1 24 of
             None \<Rightarrow> heap0
           | Some (p2, s2) \<Rightarrow>
               (case malloc s2 1000 of
                  None \<Rightarrow> heap0
                | Some (p3, s3) \<Rightarrow> free (free s3 p1) p3)))"

section \<open>Views of the heap used in the statements\<close>

text \<open>
  \<open>list_seg m p xs q\<close>: following the \<open>next\<close> fields from the pointer \<open>p\<close> visits exactly
  the blocks \<open>xs\<close>, none of them null, and then arrives at \<open>q\<close>. A whole class list is a
  segment that ends at the null pointer.
\<close>

primrec list_seg :: "memory \<Rightarrow> addr \<Rightarrow> addr list \<Rightarrow> addr \<Rightarrow> bool" where
  "list_seg m p [] q = (p = q)"
| "list_seg m p (x # xs) q = (p = x \<and> x \<noteq> 0 \<and> list_seg m (load64 m (x + 2 * 8)) xs q)"

text \<open>
  \<open>trace_ok c j r tr\<close>: the list \<open>tr\<close> of probed classes is one the class loop can produce
  when it is entered at class \<open>c\<close> with the flag \<^verbatim>\<open>jumped\<close> equal to \<open>j\<close> and ends with the
  result \<open>r\<close>.
\<close>

definition trace_ok :: "u64 \<Rightarrow> bool \<Rightarrow> search_result \<Rightarrow> u64 list \<Rightarrow> bool" where
  "trace_ok c j r tr \<longleftrightarrow>
     (tr \<noteq> [] \<longrightarrow> hd tr = c) \<and>
     (\<forall>i. Suc i < length tr \<longrightarrow>
        tr ! Suc i = tr ! i + (if i = 0 \<and> c < 16 \<and> \<not> j then 2 else 1)) \<and>
     (c < 24 \<longrightarrow> tr \<noteq> []) \<and>
     (\<not> c < 24 \<longrightarrow> tr = [] \<and> r = NotFound) \<and>
     (r = NotFound \<and> c < 24 \<longrightarrow> last tr = 23) \<and>
     (\<forall>a l k. r = Found a l k \<longrightarrow> tr \<noteq> [] \<and> last tr = k)"

section \<open>Well-formed heaps\<close>

text \<open>
  The statements about \<^verbatim>\<open>free\<close> on an initialised heap are about heaps whose metadata is
  intact. This section says what that means; nothing here is code of \<^verbatim>\<open>mm.c\<close>.

  Addresses are written as natural numbers: \<open>A n\<close> is the address \<open>n\<close>. \<open>al8\<close> is alignment
  to 8 bytes and \<open>va\<close> an aligned address below \<open>2\<^sup>6\<^sup>4\<close>.
\<close>

definition A :: "nat \<Rightarrow> addr" where
  "A n = of_nat n"

definition al8 :: "nat \<Rightarrow> bool" where
  "al8 x \<longleftrightarrow> x mod 8 = 0"

definition va :: "nat \<Rightarrow> bool" where
  "va x \<longleftrightarrow> al8 x \<and> x < 2 ^ 64"







text \<open>
  A block is the address of its header, its length and whether it is allocated. \<open>lay a bs e\<close>:
  the blocks \<open>bs\<close> tile the addresses from \<open>a\<close> to \<open>e\<close>, each taking its header word and its
  length, a length being 8 modulo 16. \<open>seg m a pa bs e pe\<close>: moreover the memory holds the
  metadata of these blocks. The header of each block is the encoding of its length, its
  allocation bit and the allocation bit of the block before it (\<open>pa\<close> for the first); a free
  block has an allocated block before it and the same word again in its last word, the
  footer. \<open>pe\<close> is the allocation bit of the last block.
\<close>

type_synonym blk = "nat \<times> nat \<times> bool"


fun seg :: "memory \<Rightarrow> nat \<Rightarrow> bool \<Rightarrow> blk list \<Rightarrow> nat \<Rightarrow> bool \<Rightarrow> bool" where
  "seg m a pa [] e pe = (a = e \<and> pa = pe)"
| "seg m a pa ((b, l, al) # bs) e pe =
     (b = a \<and> l mod 16 = 8 \<and> load64 m (A b) = encode (A l) al pa \<and>
      (\<not> al \<longrightarrow> pa \<and> load64 m (A (b + l)) = encode (A l) al pa) \<and>
      seg m (b + 8 + l) al bs e pe)"




definition same_on :: "nat set \<Rightarrow> memory \<Rightarrow> memory \<Rightarrow> bool" where
  "same_on X m m' \<longleftrightarrow> (\<forall>y\<in>X. load64 m' (A y) = load64 m (A y))"










section \<open>Reading and writing words\<close>

lemma upt8: "[0..<8] = [0,1,2,3,4,5,6,7]"
  by (simp add: upt_rec)

lemma byte_step:
  "ucast (byte_at v i) OR push_bit 8 (drop_bit (8 * Suc i) v) = drop_bit (8 * i) v"
proof (rule bit_word_eqI)
  fix n :: nat assume n: "n < LENGTH(64)"
  show "bit (ucast (byte_at v i) OR push_bit 8 (drop_bit (8 * Suc i) v)) n
        = bit (drop_bit (8 * i) v) n"
  proof (cases "n < 8")
    case True
    then show ?thesis by (simp add: byte_at_def bit_simps)
  next
    case False
    then have "8 * Suc i + (n - 8) = 8 * i + n" by simp
    with False n show ?thesis by (simp add: byte_at_def bit_simps)
  qed
qed

lemma le_word_bytes: "le_word (map (byte_at v) [0,1,2,3,4,5,6,7]) = v"
proof -
  have e: "drop_bit 64 v = 0" by (simp add: drop_bit_eq_zero_iff_not_bit_last)
  have "le_word [byte_at v 7] = drop_bit 56 v"
    using byte_step[of v 7] e by simp
  then have "le_word [byte_at v 6, byte_at v 7] = drop_bit 48 v"
    using byte_step[of v 6] by simp
  then have "le_word [byte_at v 5, byte_at v 6, byte_at v 7] = drop_bit 40 v"
    using byte_step[of v 5] by simp
  then have "le_word [byte_at v 4, byte_at v 5, byte_at v 6, byte_at v 7] = drop_bit 32 v"
    using byte_step[of v 4] by simp
  then have "le_word [byte_at v 3, byte_at v 4, byte_at v 5, byte_at v 6, byte_at v 7]
             = drop_bit 24 v"
    using byte_step[of v 3] by simp
  then have "le_word [byte_at v 2, byte_at v 3, byte_at v 4, byte_at v 5, byte_at v 6,
                      byte_at v 7] = drop_bit 16 v"
    using byte_step[of v 2] by simp
  then have "le_word [byte_at v 1, byte_at v 2, byte_at v 3, byte_at v 4, byte_at v 5,
                      byte_at v 6, byte_at v 7] = drop_bit 8 v"
    using byte_step[of v 1] by simp
  then show ?thesis
    using byte_step[of v 0] by simp
qed

lemma load64_store64_same [simp]: "load64 (store64 m p v) p = v"
  using le_word_bytes[of v] by (simp add: load64_def store64_def upt8)

lemma off_ge:
  assumes i: "i < 8" and a: "n \<le> q - p" and b: "8 \<le> p - q"
  shows "\<not> (q + of_nat i - p :: u64) < n"
proof -
  have e: "q + of_nat i - p = (q - p) + of_nat i" by simp
  have ui: "unat (of_nat i :: u64) = i" using i by (simp add: unat_of_nat)
  have a': "unat n \<le> unat (q - p)" using a by (simp add: word_le_nat_alt)
  have b': "8 \<le> unat (p - q)" using b by (simp add: word_le_nat_alt)
  have lp: "unat p < 2 ^ 64" and lq: "unat q < 2 ^ 64"
    using unsigned_less[of p] unsigned_less[of q] by simp_all
  have "unat (p - q) = (if unat q \<le> unat p then unat p - unat q else unat p + 2 ^ 64 - unat q)"
    by (simp add: unat_sub_if_size word_size)
  moreover have "unat (q - p) = (if unat p \<le> unat q then unat q - unat p else unat q + 2 ^ 64 - unat p)"
    by (simp add: unat_sub_if_size word_size)
  ultimately have "unat (q - p) + 8 \<le> 2 ^ 64"
    using b' lp lq by (auto split: if_splits)
  then have "unat ((q - p) + of_nat i) = unat (q - p) + i"
    using i ui by (simp add: unat_plus_if')
  with a' show ?thesis unfolding e by (simp add: word_less_nat_alt)
qed

lemmas off_lt8 = off_ge[where n = 8]

lemma load64_cong:
  assumes "\<And>i. i < 8 \<Longrightarrow> m1 (q + of_nat i) = m2 (q + of_nat i)"
  shows "load64 m1 q = load64 m2 q"
proof -
  have "map (\<lambda>i. m1 (q + of_nat i)) [0..<8] = map (\<lambda>i. m2 (q + of_nat i)) [0..<8]"
    by (rule map_cong) (use assms in auto)
  then show ?thesis by (simp only: load64_def)
qed

lemma load64_store64_disj:
  assumes "8 \<le> q - p" and "8 \<le> p - q"
  shows "load64 (store64 m p v) q = load64 m q"
proof (rule load64_cong)
  fix i :: nat assume "i < 8"
  then show "store64 m p v (q + of_nat i) = m (q + of_nat i)"
    using off_lt8[OF _ assms] by (simp add: store64_def)
qed

lemma load64_memset_disj:
  assumes "n \<le> q - p" and "8 \<le> p - q"
  shows "load64 (mem_memset m p c n) q = load64 m q"
proof (rule load64_cong)
  fix i :: nat assume "i < 8"
  then show "mem_memset m p c n (q + of_nat i) = m (q + of_nat i)"
    using off_ge[OF _ assms] by (simp add: mem_memset_def)
qed

lemma load64_memcpy_disj:
  assumes "n \<le> q - p" and "8 \<le> p - q"
  shows "load64 (mem_memcpy m p src n) q = load64 m q"
proof (rule load64_cong)
  fix i :: nat assume "i < 8"
  then show "mem_memcpy m p src n (q + of_nat i) = m (q + of_nat i)"
    using off_ge[OF _ assms] by (simp add: mem_memcpy_def)
qed

lemma byte_at_le_word0: "byte_at (ucast b OR push_bit 8 w) 0 = b"
  by (rule bit_word_eqI) (auto simp add: byte_at_def bit_simps)


lemma byte_at_le_word_Suc:
  "i < 7 \<Longrightarrow> byte_at (ucast (b::byte) OR push_bit 8 w) (Suc i) = byte_at w i"
  by (rule bit_word_eqI) (auto simp add: byte_at_def bit_simps dest: bit_imp_le_length)

lemma byte_at_le_word:
  "i < length bs \<Longrightarrow> length bs \<le> 8 \<Longrightarrow> byte_at (le_word bs) i = bs ! i"
proof (induction bs arbitrary: i)
  case Nil then show ?case by simp
next
  case (Cons b bs)
  then show ?case by (cases i) (simp_all add: byte_at_le_word0 byte_at_le_word_Suc)
qed

lemma byte_at_load64: "i < 8 \<Longrightarrow> byte_at (load64 m p) i = m (p + of_nat i)"
  by (simp add: load64_def byte_at_le_word)

lemma mem_memcpy8: "mem_memcpy m dst src 8 = store64 m dst (load64 m src)"
proof
  fix a
  show "mem_memcpy m dst src 8 a = store64 m dst (load64 m src) a"
  proof (cases "a - dst < 8")
    case True
    then have "unat (a - dst) < 8" by (simp add: word_less_nat_alt)
    then show ?thesis using True
      by (simp add: mem_memcpy_def store64_def byte_at_load64)
  next
    case False
    then show ?thesis by (simp add: mem_memcpy_def store64_def)
  qed
qed

lemma byte_at_zero [simp]: "byte_at 0 i = 0"
  by (simp add: byte_at_def)

lemma mem_memset8_zero: "mem_memset m p 0 8 = store64 m p 0"
  by (rule ext) (simp add: mem_memset_def store64_def)

lemma load64_zero_mem [simp]: "load64 (\<lambda>a. 0) q = 0"
  by (simp add: load64_def upt8)

lemma load64_memset_zero_mem [simp]: "load64 (mem_memset (\<lambda>a. 0) p 0 n) q = 0"
  by (simp add: load64_def mem_memset_def upt8)

lemmas mem_eval = mem_memset8_zero mem_memcpy8 load64_store64_disj load64_memset_disj
  load64_memcpy_disj construct_new_def setLeftAllocated_def deconstruct_new_def encode_def
  getLength_def getLeftAllocated_def

section \<open>The size-class function\<close>

lemma ceil_log2_le_iff: "0 < n \<Longrightarrow> ceil_log2 n \<le> k \<longleftrightarrow> n \<le> 2 ^ k"
proof (induction n arbitrary: k rule: ceil_log2.induct)
  case (1 n)
  show ?case
  proof (cases "n \<le> 1")
    case True
    with 1(2) have "n = 1" by simp
    then show ?thesis by (simp add: ceil_log2.simps)
  next
    case False
    then have ih: "\<And>j. ceil_log2 ((n + 1) div 2) \<le> j \<longleftrightarrow> (n + 1) div 2 \<le> 2 ^ j"
      using 1(1) by simp
    show ?thesis
    proof (cases k)
      case 0
      with False show ?thesis by (simp add: ceil_log2.simps)
    next
      case (Suc j)
      have "(n + 1) div 2 \<le> 2 ^ j \<longleftrightarrow> n \<le> 2 * 2 ^ j" by auto
      with False Suc ih[of j] show ?thesis by (simp add: ceil_log2.simps[of n])
    qed
  qed
qed

lemma ceil_log2_real: "0 < n \<Longrightarrow> int (ceil_log2 n) = \<lceil>ln (real n) / ln 2\<rceil>"
proof -
  assume n: "0 < n"
  have "ceil_log2 n = ceillog2 n"
  proof (rule antisym)
    show "ceil_log2 n \<le> ceillog2 n"
      using n ceil_log2_le_iff[of n "ceillog2 n"] ceillog2_le_iff[of n "ceillog2 n"] by simp
    show "ceillog2 n \<le> ceil_log2 n"
      using n ceil_log2_le_iff[of n "ceil_log2 n"] ceillog2_le_iff[of n "ceil_log2 n"] by simp
  qed
  moreover have "0 \<le> ln (real n) / ln 2" using n by simp
  then have "0 \<le> \<lceil>ln (real n) / ln 2\<rceil>" by linarith
  ultimately show ?thesis using n by (simp add: ceillog2_def log_def)
qed

lemma ceil_log2_eqI: "2 ^ k < n \<Longrightarrow> n \<le> 2 ^ Suc k \<Longrightarrow> ceil_log2 n = Suc k"
proof -
  assume a: "2 ^ k < n" "n \<le> 2 ^ Suc k"
  then have n: "0 < n" by (metis gr0I not_less_zero)
  have "ceil_log2 n \<le> Suc k" using a n ceil_log2_le_iff by blast
  moreover have "\<not> ceil_log2 n \<le> k" using a n ceil_log2_le_iff[of n k] by simp
  ultimately show ?thesis by simp
qed

lemma unat_plus8: "unat r + 8 < 2 ^ 64 \<Longrightarrow> unat (r + 8 :: u64) = unat r + 8"
  by (simp add: unat_word_ariths)

text \<open>
  The size classes where the padding does not wrap. Let \<open>s = requiredBytes + 8\<close> be the
  padded size the function computes first. When \<open>s\<close> is at least 16 and the addition did not
  wrap, the class index lies in \<open>[0, 23]\<close>: for \<open>s \<le> 256\<close> it is \<open>s div 16 - 1\<close>, one of 0..15;
  for \<open>256 < s \<le> 32768\<close> it is \<open>\<lceil>log\<^sub>2 s\<rceil> + 7\<close>, one of 16..22; for every larger \<open>s\<close> it is
  23.
\<close>

lemma calculateClass_new_range:
  assumes "8 \<le> unat requiredBytes" and "unat requiredBytes + 8 < 2 ^ 64"
  shows "unat (calculateClass_new requiredBytes) \<le> 23 \<and>
    (unat requiredBytes + 8 \<le> 256 \<longrightarrow>
       unat (calculateClass_new requiredBytes) = (unat requiredBytes + 8) div 16 - 1 \<and>
       unat (calculateClass_new requiredBytes) \<le> 15) \<and>
    (256 < unat requiredBytes + 8 \<and> unat requiredBytes + 8 \<le> 32768 \<longrightarrow>
       int (unat (calculateClass_new requiredBytes)) = \<lceil>ln (real (unat requiredBytes + 8)) / ln 2\<rceil> + 7 \<and>
       16 \<le> unat (calculateClass_new requiredBytes) \<and>
       unat (calculateClass_new requiredBytes) \<le> 22) \<and>
    (32768 < unat requiredBytes + 8 \<longrightarrow> calculateClass_new requiredBytes = 23)"
proof -
  let ?s = "unat requiredBytes + 8"
  have s: "unat (requiredBytes + 8) = ?s" using assms(2) by (rule unat_plus8)
  have le256: "requiredBytes + 8 \<le> 256 \<longleftrightarrow> ?s \<le> 256"
    by (simp add: word_le_nat_alt s)
  have le32768: "requiredBytes + 8 \<le> 32768 \<longleftrightarrow> ?s \<le> 32768"
    by (simp add: word_le_nat_alt s)
  show ?thesis
  proof (cases "?s \<le> 256")
    case True
    have d: "unat ((requiredBytes + 8) div 16) = ?s div 16"
      by (simp add: unat_div s)
    have "1 \<le> ?s div 16" using assms(1) by simp
    then have "unat ((requiredBytes + 8) div 16 - 1) = ?s div 16 - 1"
      using d by (simp add: unat_sub word_le_nat_alt)
    moreover have "?s div 16 - 1 \<le> 15" using True by simp
    ultimately show ?thesis using True le256 by (simp add: calculateClass_new_def)
  next
    case False
    show ?thesis
    proof (cases "?s \<le> 32768")
      case True
      have pos: "0 < ?s" by simp
      have up: "ceil_log2 ?s \<le> 15" using True ceil_log2_le_iff[OF pos, of 15] by simp
      have lo: "\<not> ceil_log2 ?s \<le> 8" using False ceil_log2_le_iff[OF pos, of 8] by simp
      have "unat (of_nat (ceil_log2 ?s) + 7 :: u64) = ceil_log2 ?s + 7"
        using up by (simp add: unat_word_ariths unat_of_nat)
      then show ?thesis
        using True False le256 le32768 up lo ceil_log2_real[OF pos]
        by (simp add: calculateClass_new_def s)
    next
      case F2: False
      then show ?thesis using False le256 le32768 by (simp add: calculateClass_new_def)
    qed
  qed
qed

text \<open>The lemma at \<open>requiredBytes = 4008\<close>, the padded size 4016 of a range class.\<close>

lemma calculateClass_new_range_4008:
  "unat (calculateClass_new 4008) \<le> 23 \<and>
   int (unat (calculateClass_new 4008)) = \<lceil>ln (real (4016::nat)) / ln 2\<rceil> + 7 \<and>
   16 \<le> unat (calculateClass_new 4008) \<and> unat (calculateClass_new 4008) \<le> 22"
  using calculateClass_new_range[of 4008] by simp

text \<open>
  Claim C2 fails in the code: the function does not map every padded size into \<open>[0, 23]\<close>.
  For \<open>requiredBytes = 2\<^sup>6\<^sup>4 - 8\<close>, which \<^verbatim>\<open>align_new\<close> returns for the sizes from \<open>2\<^sup>6\<^sup>4 - 23\<close> to
  \<open>2\<^sup>6\<^sup>4 - 8\<close>, the addition of 8 wraps to 0 and the class index is \<open>0 div 16 - 1 = 2\<^sup>6\<^sup>4 - 1\<close>,
  while the neighbouring \<open>requiredBytes = 2\<^sup>6\<^sup>4 - 24\<close> gets the catch-all class 23.
\<close>

theorem calculateClass_new_wraps:
  "calculateClass_new 0xFFFFFFFFFFFFFFF8 = 0xFFFFFFFFFFFFFFFF \<and>
   \<not> unat (calculateClass_new 0xFFFFFFFFFFFFFFF8) \<le> 23 \<and>
   align_new 0xFFFFFFFFFFFFFFE9 = 0xFFFFFFFFFFFFFFF8 \<and>
   calculateClass_new 0xFFFFFFFFFFFFFFE8 = 23"
proof -
  have "calculateClass_new 0xFFFFFFFFFFFFFFF8 = 0xFFFFFFFFFFFFFFFF"
    by (simp add: calculateClass_new_def)
  moreover have "unat (0xFFFFFFFFFFFFFFFF :: u64) = 18446744073709551615" by simp
  moreover have "align_new 0xFFFFFFFFFFFFFFE9 = 0xFFFFFFFFFFFFFFF8"
    by (simp add: align_new_def)
  moreover have "calculateClass_new 0xFFFFFFFFFFFFFFE8 = 23"
    by (simp add: calculateClass_new_def)
  ultimately show ?thesis by simp
qed
section \<open>The allocation search\<close>

lemma trace_ok_single: "c < 24 \<Longrightarrow> trace_ok c j (Found a l c) [c]"
  by (simp add: trace_ok_def)

lemma trace_ok_end: "\<not> c < 24 \<Longrightarrow> trace_ok c j NotFound []"
  by (simp add: trace_ok_def)

lemma u64_eq_23: "c < 24 \<Longrightarrow> \<not> c + 1 < 24 \<Longrightarrow> c = (23 :: u64)"
  by unat_arith

lemma trace_ok_cons1:
  assumes c: "c < 24" and nj: "\<not> (c < 16 \<and> \<not> j)" and t: "trace_ok (c + 1) j r tr'"
  shows "trace_ok c j r (c # tr')"
proof -
  have steps: "Suc i < length (c # tr') \<Longrightarrow>
      (c # tr') ! Suc i = (c # tr') ! i + (if i = 0 \<and> c < 16 \<and> \<not> j then 2 else 1)" for i
  proof (cases i)
    case 0
    assume "Suc i < length (c # tr')"
    with 0 have "tr' \<noteq> []" by auto
    with t have "hd tr' = c + 1" by (simp add: trace_ok_def)
    with 0 nj \<open>tr' \<noteq> []\<close> show ?thesis by (auto simp: hd_conv_nth)
  next
    case (Suc k)
    assume "Suc i < length (c # tr')"
    with Suc have k: "Suc k < length tr'" by simp
    have "\<not> (k = 0 \<and> c + 1 < 16 \<and> \<not> j)"
      using nj c by (auto simp: word_less_nat_alt unat_word_ariths split: if_splits)
    with t k have "tr' ! Suc k = tr' ! k + 1" by (auto simp: trace_ok_def)
    with Suc show ?thesis by simp
  qed
  have l: "r = NotFound \<Longrightarrow> last (c # tr') = 23"
  proof (cases "c + 1 < 24")
    case True
    assume "r = NotFound"
    with True t show ?thesis by (auto simp: trace_ok_def)
  next
    case False
    with t have "tr' = []" by (simp add: trace_ok_def)
    with u64_eq_23[OF c False] show ?thesis by simp
  qed
  show ?thesis unfolding trace_ok_def
    using c steps l t by (auto simp: trace_ok_def)
qed

lemma trace_ok_cons2:
  assumes c: "c < 16" and t: "trace_ok (c + 2) True r tr'"
  shows "trace_ok c False r (c # tr')"
proof -
  have c2: "c + 2 < 24" using c by unat_arith
  then have ne: "tr' \<noteq> []" using t by (simp add: trace_ok_def)
  have steps: "Suc i < length (c # tr') \<Longrightarrow>
      (c # tr') ! Suc i = (c # tr') ! i + (if i = 0 \<and> c < 16 \<and> \<not> False then 2 else 1)" for i
  proof (cases i)
    case 0
    from ne t have "hd tr' = c + 2" by (simp add: trace_ok_def)
    with 0 c ne show ?thesis by (auto simp: hd_conv_nth)
  next
    case (Suc k)
    assume "Suc i < length (c # tr')"
    with Suc have k: "Suc k < length tr'" by simp
    with t have "tr' ! Suc k = tr' ! k + 1" by (auto simp: trace_ok_def)
    with Suc show ?thesis by simp
  qed
  have l: "r = NotFound \<Longrightarrow> last (c # tr') = 23"
    using t c2 ne by (auto simp: trace_ok_def)
  have c24: "c < 24" using c by unat_arith
  show ?thesis unfolding trace_ok_def
    using c24 steps l t ne by (auto simp: trace_ok_def)
qed

lemma class_loop_miss:
  "c < 24 \<Longrightarrow> scan_list m c req (load64 m (hs + c * 8)) 0 0 = Some (Done 0 ba) \<Longrightarrow>
   class_loop hs m req c j =
     map_option (\<lambda>(r, tr). (r, c # tr))
       (if c < 16 \<and> \<not> j then class_loop hs m req (c + 2) True
        else class_loop hs m req (c + 1) j)"
  by (subst class_loop.simps) simp

lemma class_loop_missD:
  assumes "c < 24" and "scan_list m c req (load64 m (hs + c * 8)) 0 0 = Some (Done 0 ba)"
    and "class_loop hs m req c j = Some (r, tr)"
  shows "\<exists>tr'. tr = c # tr' \<and>
           (if c < 16 \<and> \<not> j then class_loop hs m req (c + 2) True
            else class_loop hs m req (c + 1) j) = Some (r, tr')"
proof -
  have "map_option (\<lambda>(r, tr). (r, c # tr))
       (if c < 16 \<and> \<not> j then class_loop hs m req (c + 2) True
        else class_loop hs m req (c + 1) j) = Some (r, tr)"
    using class_loop_miss[OF assms(1,2), of j] assms(3) by simp
  then show ?thesis by (auto split: if_splits)
qed

lemma class_loop_hit:
  "c < 24 \<Longrightarrow> scan_list m c req (load64 m (hs + c * 8)) 0 0 = Some (Hit a l) \<Longrightarrow>
   class_loop hs m req c j = Some (Found a l c, [c])"
  by (subst class_loop.simps) simp

lemma class_loop_best:
  "c < 24 \<Longrightarrow> scan_list m c req (load64 m (hs + c * 8)) 0 0 = Some (Done bl ba) \<Longrightarrow>
   bl \<noteq> 0 \<Longrightarrow> class_loop hs m req c j = Some (Found ba bl c, [c])"
  by (subst class_loop.simps) simp

lemma class_loop_end: "\<not> c < 24 \<Longrightarrow> class_loop hs m req c j = Some (NotFound, [])"
  by (subst class_loop.simps) simp

lemma class_loop_trace:
  "class_loop hs m req c j = Some (r, tr) \<Longrightarrow> trace_ok c j r tr"
proof (induction hs m req c j arbitrary: r tr rule: class_loop.induct)
  case (1 hs m req c j)
  show ?case
  proof (cases "c < 24")
    case False
    with "1.prems" show ?thesis by (auto simp: class_loop.simps[of hs m req c j] trace_ok_end)
  next
    case True
    note c24 = True
    from "1.prems" c24 obtain sr where sr: "scan_list m c req (load64 m (hs + c * 8)) 0 0 = Some sr"
      by (auto simp: class_loop.simps[of hs m req c j] split: option.splits)
    show ?thesis
    proof (cases sr)
      case (Hit a l)
      with "1.prems" c24 sr show ?thesis
        by (auto simp: class_loop.simps[of hs m req c j] trace_ok_single)
    next
      case (Done bl ba)
      show ?thesis
      proof (cases "bl \<noteq> 0")
        case True
        with "1.prems" c24 sr Done show ?thesis
          by (auto simp: class_loop.simps[of hs m req c j] trace_ok_single)
      next
        case False
        then have bl0: "bl = 0" by simp
        show ?thesis
        proof (cases "c < 16 \<and> \<not> j")
          case True
          from sr Done bl0 have "scan_list m c req (load64 m (hs + c * 8)) 0 0 = Some (Done 0 ba)"
            by simp
          from class_loop_missD[OF c24 this "1.prems"] True obtain tr' where
            rec: "class_loop hs m req (c + 2) True = Some (r, tr')" and tr: "tr = c # tr'"
            by auto
          from "1.IH"(1)[OF c24 sr Done _ True rec] bl0 have "trace_ok (c + 2) True r tr'" by simp
          with True tr show ?thesis by (auto intro: trace_ok_cons2)
        next
          case F: False
          from sr Done bl0 have "scan_list m c req (load64 m (hs + c * 8)) 0 0 = Some (Done 0 ba)"
            by simp
          from class_loop_missD[OF c24 this "1.prems"] F obtain tr' where
            rec: "class_loop hs m req (c + 1) j = Some (r, tr')" and tr: "tr = c # tr'"
            by auto
          from "1.IH"(2)[OF c24 sr Done _ F rec] bl0 have "trace_ok (c + 1) j r tr'" by simp
          with F tr c24 show ?thesis by (auto intro: trace_ok_cons1)
        qed
      qed
    qed
  qed
qed

lemma scan_list_null: "scan_list m c req 0 bl ba = Some (Done bl ba)"
  by (subst scan_list.simps) simp

lemma scan_list_exact_class:
  "p \<noteq> 0 \<Longrightarrow> c < 16 \<Longrightarrow> scan_list m c req p bl ba = Some (Hit p (getLength m p))"
  by (subst scan_list.simps) (simp add: Let_def)

lemma scan_list_exact_fit:
  "p \<noteq> 0 \<Longrightarrow> getLength m p = req \<Longrightarrow> scan_list m c req p bl ba = Some (Hit p (getLength m p))"
  by (subst scan_list.simps) (simp add: Let_def)

lemma scan_list_step:
  "p \<noteq> 0 \<Longrightarrow> \<not> c < 16 \<Longrightarrow> getLength m p \<noteq> req \<Longrightarrow>
   scan_list m c req p bl ba =
     (if req < getLength m p \<and> (bl = 0 \<or> getLength m p < bl)
      then scan_list m c req (load64 m (p + 2 * 8)) (getLength m p) p
      else scan_list m c req (load64 m (p + 2 * 8)) bl ba)"
  by (subst scan_list.simps) (auto simp add: Let_def)

lemma scan_short_circuit:
  "list_seg m p xs b \<Longrightarrow> b \<noteq> 0 \<Longrightarrow> getLength m b = req \<Longrightarrow>
   \<forall>x\<in>set xs. getLength m x \<noteq> req \<Longrightarrow> \<not> c < 16 \<Longrightarrow>
   scan_list m c req p bl ba = Some (Hit b req)"
proof (induction xs arbitrary: p bl ba)
  case Nil
  then show ?case using scan_list_exact_fit[of b m req c bl ba] by simp
next
  case (Cons x xs)
  then have "scan_list m c req (load64 m (x + 2 * 8)) bl' ba' = Some (Hit b req)" for bl' ba'
    by simp
  with Cons.prems show ?case by (simp add: scan_list_step)
qed

lemma scan_best_fit:
  assumes "list_seg m p bs 0" and "\<forall>x\<in>set bs. getLength m x \<noteq> req" and "\<not> c < 16"
  shows "\<exists>bl' ba'. scan_list m c req p bl ba = Some (Done bl' ba') \<and>
           (bl' = bl \<and> ba' = ba \<or> ba' \<in> set bs \<and> bl' = getLength m ba' \<and> req < bl') \<and>
           (\<forall>x\<in>set bs. req < getLength m x \<longrightarrow> bl' \<noteq> 0 \<and> bl' \<le> getLength m x) \<and>
           (bl \<noteq> 0 \<longrightarrow> bl' \<noteq> 0 \<and> bl' \<le> bl)"
  using assms
proof (induction bs arbitrary: p bl ba)
  case Nil
  then show ?case by (simp add: scan_list_null)
next
  case (Cons x xs)
  from Cons.prems have px: "p = x" "x \<noteq> 0" and seg: "list_seg m (load64 m (x + 2 * 8)) xs 0"
    and ne: "getLength m x \<noteq> req" and nes: "\<forall>y\<in>set xs. getLength m y \<noteq> req"
    by simp_all
  let ?L = "getLength m x"
  show ?case
  proof (cases "req < ?L \<and> (bl = 0 \<or> ?L < bl)")
    case True
    from Cons.IH[OF seg nes Cons.prems(3), of ?L x] obtain bl' ba' where
      s: "scan_list m c req (load64 m (x + 2 * 8)) ?L x = Some (Done bl' ba')"
      and o: "bl' = ?L \<and> ba' = x \<or> ba' \<in> set xs \<and> bl' = getLength m ba' \<and> req < bl'"
      and mn: "\<forall>y\<in>set xs. req < getLength m y \<longrightarrow> bl' \<noteq> 0 \<and> bl' \<le> getLength m y"
      and le: "?L \<noteq> 0 \<longrightarrow> bl' \<noteq> 0 \<and> bl' \<le> ?L"
      by blast
    have L0: "?L \<noteq> 0" using True by auto
    have "scan_list m c req p bl ba = Some (Done bl' ba')"
      using px ne Cons.prems(3) True s by (auto simp add: scan_list_step)
    moreover have "ba' \<in> set (x # xs) \<and> bl' = getLength m ba' \<and> req < bl'"
      using o True by auto
    moreover have "\<forall>y\<in>set (x # xs). req < getLength m y \<longrightarrow> bl' \<noteq> 0 \<and> bl' \<le> getLength m y"
      using mn le L0 by auto
    moreover have "bl \<noteq> 0 \<longrightarrow> bl' \<noteq> 0 \<and> bl' \<le> bl"
      using le L0 True by auto
    ultimately show ?thesis by blast
  next
    case False
    from Cons.IH[OF seg nes Cons.prems(3), of bl ba] obtain bl' ba' where
      s: "scan_list m c req (load64 m (x + 2 * 8)) bl ba = Some (Done bl' ba')"
      and o: "bl' = bl \<and> ba' = ba \<or> ba' \<in> set xs \<and> bl' = getLength m ba' \<and> req < bl'"
      and mn: "\<forall>y\<in>set xs. req < getLength m y \<longrightarrow> bl' \<noteq> 0 \<and> bl' \<le> getLength m y"
      and le: "bl \<noteq> 0 \<longrightarrow> bl' \<noteq> 0 \<and> bl' \<le> bl"
      by blast
    have "scan_list m c req p bl ba = Some (Done bl' ba')"
      using px ne Cons.prems(3) False s by (auto simp add: scan_list_step)
    moreover have "bl' = bl \<and> ba' = ba \<or> ba' \<in> set (x # xs) \<and> bl' = getLength m ba' \<and> req < bl'"
      using o by auto
    moreover have "\<forall>y\<in>set (x # xs). req < getLength m y \<longrightarrow> bl' \<noteq> 0 \<and> bl' \<le> getLength m y"
    proof (intro ballI impI)
      fix y assume y: "y \<in> set (x # xs)" "req < getLength m y"
      show "bl' \<noteq> 0 \<and> bl' \<le> getLength m y"
      proof (cases "y = x")
        case True
        with y False have "bl \<noteq> 0 \<and> bl \<le> ?L" by auto
        with le True show ?thesis by auto
      next
        case F: False
        with y mn show ?thesis by auto
      qed
    qed
    ultimately show ?thesis using le by blast
  qed
qed

section \<open>The example heap\<close>

lemma heap0_fields:
  "initialized heap0" "heap_start heap0 = 0x100000" "mem_brk heap0 = 0x1000D0"
  "mem_lo heap0 = 0x100000" "mem_max heap0 = 0x200000" "sbrk_calls heap0 = 1"
  by (simp_all add: heap0_def mm_init_def fresh_def mem_sbrk_def sbrk_ptr_def Let_def mem_heap_lo_def)

lemma heap0_mem:
  "mem heap0 = store64 (store64 (mem_memset (\<lambda>a. 0) 0x100000 0 208) 0x1000C0 3) 0x1000C8 3"
  by (simp add: heap0_def mm_init_def fresh_def mem_sbrk_def sbrk_ptr_def Let_def mem_heap_lo_def
      construct_new_def encode_def)

lemma heap0_head: "c < 24 \<Longrightarrow> load64 (mem heap0) (0x100000 + c * 8) = 0"
proof -
  assume "c < 24"
  then have c: "unat c < 24" by (simp add: word_less_nat_alt)
  then have u: "unat (c * 8) = unat c * 8" by (simp add: unat_word_ariths)
  have a: "unat (0x100000 + c * 8 :: u64) = 0x100000 + unat c * 8"
    using c u by (simp add: unat_word_ariths)
  have 1: "8 \<le> (0x100000 + c * 8) - 0x1000C8" "8 \<le> 0x1000C8 - (0x100000 + c * 8)"
       "8 \<le> (0x100000 + c * 8) - 0x1000C0" "8 \<le> 0x1000C0 - (0x100000 + c * 8)"
    using c a u by (simp_all add: word_le_nat_alt unat_sub_if_size word_size)
  show ?thesis using 1 by (simp add: heap0_mem load64_store64_disj)
qed

lemma class_loop_heap0:
  "class_loop 0x100000 (mem heap0) req c j =
     (if c < 24 then
        map_option (\<lambda>(r, tr). (r, c # tr))
          (if c < 16 \<and> \<not> j then class_loop 0x100000 (mem heap0) req (c + 2) True
           else class_loop 0x100000 (mem heap0) req (c + 1) j)
      else Some (NotFound, []))"
  by (subst class_loop.simps) (simp add: heap0_head scan_list_null)

lemma cl0: "class_loop 0x100000 (mem heap0) req 0 False = Some (NotFound, [0,2,3,4,5,6,7,8,9,10,11,12,13,14,15,16,17,18,19,20,21,22,23])"
  by (simp add: class_loop_heap0)

lemmas heap0_eval = allocateExtra_def mem_sbrk_def sbrk_ptr_def Let_def mem_heap_hi_def mem_heap_lo_def
  heap0_fields heap0_mem mem_eval

section \<open>Lemmas on the search and on the allocation from a found block\<close>

lemma list_seg_append:
  "list_seg m p (xs @ ys) q \<longleftrightarrow> (\<exists>r. list_seg m p xs r \<and> list_seg m r ys q)"
  by (induction xs arbitrary: p) auto

lemma word_le_0_eq [simp]: "(sz :: u64) \<le> 0 \<longleftrightarrow> sz = 0"
  by (simp add: word_le_nat_alt unat_eq_0)

lemma malloc_found:
  "initialized st \<Longrightarrow> sz \<noteq> 0 \<Longrightarrow>
   class_loop (heap_start st) (mem st) (align_new sz) (calculateClass_new (align_new sz)) False
     = Some (Found a l c, tr) \<Longrightarrow>
   malloc st sz = Some (allocateWithinHeap st a (align_new sz) l c)"
  by (simp add: malloc_def Let_def)

lemma malloc_not_found:
  "initialized st \<Longrightarrow> sz \<noteq> 0 \<Longrightarrow>
   class_loop (heap_start st) (mem st) (align_new sz) (calculateClass_new (align_new sz)) False
     = Some (NotFound, tr) \<Longrightarrow>
   malloc st sz = Some (allocateExtra st (align_new sz))"
  by (simp add: malloc_def Let_def)

lemma range_class_best_fit:
  assumes c: "cls < 24" "\<not> cls < 16" and h: "load64 m (hs + cls * 8) = h"
    and seg: "list_seg m h bs 0" and fit: "\<exists>x\<in>set bs. req \<le> getLength m x"
  shows "\<exists>b\<in>set bs. class_loop hs m req cls j = Some (Found b (getLength m b) cls, [cls]) \<and>
           req \<le> getLength m b \<and> (\<forall>x\<in>set bs. req \<le> getLength m x \<longrightarrow> getLength m b \<le> getLength m x)"
proof (cases "\<exists>x\<in>set bs. getLength m x = req")
  case True
  then obtain xs b ys where bs: "bs = xs @ b # ys" and b: "getLength m b = req"
    and xs: "\<forall>x\<in>set xs. getLength m x \<noteq> req"
    using split_list_first_prop[of bs "\<lambda>x. getLength m x = req"] by blast
  from seg bs have "list_seg m h xs b" "b \<noteq> 0"
    by (auto simp: list_seg_append)
  then have "scan_list m cls req (load64 m (hs + cls * 8)) 0 0 = Some (Hit b req)"
    using scan_short_circuit[OF _ _ b xs c(2)] h by simp
  then have "class_loop hs m req cls j = Some (Found b req cls, [cls])"
    by (rule class_loop_hit[OF c(1)])
  with b bs show ?thesis by auto
next
  case False
  then have ne: "\<forall>x\<in>set bs. getLength m x \<noteq> req" by simp
  from scan_best_fit[OF seg ne c(2), where bl = 0 and ba = 0] obtain bl' ba' where
    s: "scan_list m cls req h 0 0 = Some (Done bl' ba')"
    and o: "bl' = 0 \<and> ba' = 0 \<or> ba' \<in> set bs \<and> bl' = getLength m ba' \<and> req < bl'"
    and mn: "\<forall>x\<in>set bs. req < getLength m x \<longrightarrow> bl' \<noteq> 0 \<and> bl' \<le> getLength m x"
    by blast
  from fit ne obtain x where "x \<in> set bs" "req < getLength m x" by force
  with mn have nz: "bl' \<noteq> 0" by blast
  with o have ba: "ba' \<in> set bs" "bl' = getLength m ba'" "req < bl'" by auto
  from s h have "scan_list m cls req (load64 m (hs + cls * 8)) 0 0 = Some (Done bl' ba')"
    by simp
  then have "class_loop hs m req cls j = Some (Found ba' bl' cls, [cls])"
    using nz by (rule class_loop_best[OF c(1)])
  moreover have "\<forall>x\<in>set bs. req \<le> getLength m x \<longrightarrow> getLength m ba' \<le> getLength m x"
    using mn ne ba(2) by force
  ultimately show ?thesis using ba by auto
qed

lemma class_loop_empty:
  "(\<And>c. c < 24 \<Longrightarrow> load64 m (hs + c * 8) = 0) \<Longrightarrow>
   \<exists>tr. class_loop hs m req c j = Some (NotFound, tr)"
proof (induction hs m req c j rule: class_loop.induct)
  case (1 hs m req c j)
  show ?case
  proof (cases "c < 24")
    case True
    have s: "scan_list m c req (load64 m (hs + c * 8)) 0 0 = Some (Done 0 0)"
      using "1.prems"[OF True] by (simp add: scan_list_null)
    show ?thesis
    proof (cases "c < 16 \<and> \<not> j")
      case j: True
      from "1.IH"(1)[OF True s refl _ j "1.prems"] obtain tr where
        "class_loop hs m req (c + 2) True = Some (NotFound, tr)" by auto
      then show ?thesis using class_loop_miss[OF True s, of j] j by simp
    next
      case j: False
      from "1.IH"(2)[OF True s refl _ j "1.prems"] obtain tr where
        "class_loop hs m req (c + 1) j = Some (NotFound, tr)" by auto
      then show ?thesis using class_loop_miss[OF True s, of j] j by simp
    qed
  next
    case False
    then show ?thesis by (simp add: class_loop_end)
  qed
qed

lemma malloc_grow:
  assumes "initialized st" "sz \<noteq> 0"
    and "\<And>c. c < 24 \<Longrightarrow> load64 (mem st) (heap_start st + c * 8) = 0"
  shows "malloc st sz = Some (allocateExtra st (align_new sz))"
proof -
  from class_loop_empty[of "mem st" "heap_start st", OF assms(3)] obtain tr where
    "class_loop (heap_start st) (mem st) (align_new sz) (calculateClass_new (align_new sz)) False
       = Some (NotFound, tr)" by blast
  with assms(1,2) show ?thesis by (rule malloc_not_found)
qed

text \<open>
  \<^verbatim>\<open>free\<close> and \<^verbatim>\<open>allocateWithinHeap\<close> change nothing of the state but the memory;
  \<^verbatim>\<open>allocateWithinHeap\<close> returns the payload address of the block it is given, and when it
  does not split, the header of that block is the allocated header of the required length.
\<close>

lemma free_frame: "free st p = st\<lparr>mem := mem (free st p)\<rparr>"
  by (simp add: free_def Let_def split: prod.splits)

lemma allocateWithinHeap_frame:
  "allocateWithinHeap st a r l c = (a + 8, st\<lparr>mem := mem (snd (allocateWithinHeap st a r l c))\<rparr>)"
proof (cases "r < l")
  case True
  then show ?thesis
    using free_frame[of "st\<lparr>mem := construct_new (construct_new (construct_new
        (removeFromFreeList (heap_start st) (mem st) a l) a r True (getLeftAllocated (mem st) a))
        (a + r + 8) (l - r - 8) False True) (a + l) (l - r - 8) False True\<rparr>" "a + r + 2 * 8"]
    by (simp add: allocateWithinHeap_def Let_def)
next
  case False
  then show ?thesis by (simp add: allocateWithinHeap_def Let_def)
qed

lemma header_disj:
  assumes "l \<le> (0xFFFFFFFFFFFFFFE7 :: u64)"
  shows "8 \<le> a - (a + l + 8)" "8 \<le> (a + l + 8) - a"
proof -
  have l: "unat l \<le> 18446744073709551591" using assms by (simp add: word_le_nat_alt)
  define y where "y = l + 8"
  have 1: "a - (a + l + 8) = 0 - y" "(a + l + 8) - a = y" by (simp_all add: y_def)
  have u: "unat y = unat l + 8" using l by (simp add: y_def unat_word_ariths)
  have n: "unat (0 - y) = 18446744073709551616 - (unat l + 8)"
    using u l by (simp add: unat_sub_if_size word_size del: diff_0)
  show "8 \<le> a - (a + l + 8)" "8 \<le> (a + l + 8) - a"
    unfolding 1 using u n l by (simp_all add: word_le_nat_alt del: diff_0)
qed

lemma allocateWithinHeap_header:
  assumes "\<not> r < l" "l \<le> 0xFFFFFFFFFFFFFFE7"
  shows "load64 (mem (snd (allocateWithinHeap st a r l c))) a
         = encode r True (getLeftAllocated (mem st) a)"
  using assms(1) header_disj[OF assms(2), of a]
  by (simp add: allocateWithinHeap_def Let_def setLeftAllocated_def construct_new_def
      load64_store64_disj split: prod.splits)
section \<open>The example heap with two free blocks in class 17\<close>

lemma head_frame:
  assumes "c < 24" "0x1000C0 \<le> p"
  shows "load64 (store64 m p v) (0x100000 + c * 8) = load64 m (0x100000 + c * 8)"
proof -
  from assms(1) have c: "unat c < 24" by (simp add: word_less_nat_alt)
  then have u: "unat (c * 8) = unat c * 8" by (simp add: unat_word_ariths)
  have a: "unat (0x100000 + c * 8 :: u64) = 0x100000 + unat c * 8"
    using c u by (simp add: unat_word_ariths)
  have p: "0x1000C0 \<le> unat p" using assms(2) by (simp add: word_le_nat_alt)
  have pl: "unat p < 18446744073709551616" using unsigned_less[of p] by simp
  have "8 \<le> (0x100000 + c * 8) - p" "8 \<le> p - (0x100000 + c * 8)"
    using c a u p pl by (simp_all add: word_le_nat_alt unat_sub_if_size word_size)
  then show ?thesis by (rule load64_store64_disj)
qed

lemma cc17: "calculateClass_new 808 = 17" "calculateClass_new 1000 = 17" "calculateClass_new 712 = 17"
proof -
  have "ceil_log2 816 = Suc 9" "ceil_log2 1008 = Suc 9" "ceil_log2 720 = Suc 9"
    by (rule ceil_log2_eqI; simp)+
  then show "calculateClass_new 808 = 17" "calculateClass_new 1000 = 17" "calculateClass_new 712 = 17"
    by (simp_all add: calculateClass_new_def)
qed

lemma cc5: "calculateClass_new 88 = 5"
  by (simp add: calculateClass_new_def)

text \<open>The five calls, one after the other: three allocations that grow the arena, two releases.\<close>

lemma h5_1:
  "malloc heap0 800 = Some (0x1000D0, heap0\<lparr>mem_brk := 0x100400, sbrk_calls := 2, mem :=
      store64 (store64 (store64 (mem heap0) 0x1003F8 3) 0x1000C8 811) 0x1003F8 3\<rparr>)"
proof -
  have "malloc heap0 800 = Some (allocateExtra heap0 (align_new 800))"
    by (rule malloc_grow) (simp_all add: heap0_fields heap0_head)
  then show ?thesis by (simp add: align_new_def heap0_eval)
qed

lemma h5_2:
  "malloc (heap0\<lparr>mem_brk := 0x100400, sbrk_calls := 2, mem :=
      store64 (store64 (store64 (mem heap0) 0x1003F8 3) 0x1000C8 811) 0x1003F8 3\<rparr>) 24
   = Some (0x100400, heap0\<lparr>mem_brk := 0x100420, sbrk_calls := 3, mem :=
      store64 (store64 (store64 (store64 (store64 (store64 (mem heap0) 0x1003F8 3) 0x1000C8 811)
      0x1003F8 3) 0x100418 3) 0x1003F8 27) 0x100418 3\<rparr>)"
  (is "malloc ?s 24 = _")
proof -
  have "malloc ?s 24 = Some (allocateExtra ?s (align_new 24))"
    by (rule malloc_grow) (simp_all add: heap0_fields heap0_head head_frame)
  then show ?thesis
    by (simp add: align_new_def allocateExtra_def mem_sbrk_def sbrk_ptr_def Let_def
        mem_heap_hi_def heap0_fields mem_eval)
qed

lemma h5_3:
  "malloc (heap0\<lparr>mem_brk := 0x100420, sbrk_calls := 3, mem :=
      store64 (store64 (store64 (store64 (store64 (store64 (mem heap0) 0x1003F8 3) 0x1000C8 811)
      0x1003F8 3) 0x100418 3) 0x1003F8 27) 0x100418 3\<rparr>) 1000
   = Some (0x100420, heap0\<lparr>mem_brk := 0x100810, sbrk_calls := 4, mem :=
      store64 (store64 (store64 (store64 (store64 (store64 (store64 (store64 (store64 (mem
      heap0) 0x1003F8 3) 0x1000C8 811) 0x1003F8 3) 0x100418 3) 0x1003F8 27) 0x100418 3) 0x100808
      3) 0x100418 1003) 0x100808 3\<rparr>)"
  (is "malloc ?s 1000 = _")
proof -
  have "malloc ?s 1000 = Some (allocateExtra ?s (align_new 1000))"
    by (rule malloc_grow) (simp_all add: heap0_fields heap0_head head_frame)
  then show ?thesis
    by (simp add: align_new_def allocateExtra_def mem_sbrk_def sbrk_ptr_def Let_def
        mem_heap_hi_def heap0_fields mem_eval)
qed

lemma h5_4:
  "free (heap0\<lparr>mem_brk := 0x100810, sbrk_calls := 4, mem :=
      store64 (store64 (store64 (store64 (store64 (store64 (store64 (store64 (store64 (mem
      heap0) 0x1003F8 3) 0x1000C8 811) 0x1003F8 3) 0x100418 3) 0x1003F8 27) 0x100418 3) 0x100808
      3) 0x100418 1003) 0x100808 3\<rparr>) 0x1000D0
   = heap0\<lparr>mem_brk := 0x100810, sbrk_calls := 4, mem :=
      store64 (store64 (store64 (store64 (store64 (store64 (store64 (store64 (store64 (store64
      (store64 (store64 (store64 (store64 (store64 (mem heap0) 0x1003F8 3) 0x1000C8 811)
      0x1003F8 3) 0x100418 3) 0x1003F8 27) 0x100418 3) 0x100808 3) 0x100418 1003) 0x100808 3)
      0x1000C8 810) 0x1003F0 810) 0x1003F8 25) 0x100088 0x1000C8) 0x1000D0 0) 0x1000D8 0\<rparr>"
  by (simp add: free_def Let_def cc17 insertIntoFreeList_def heap0_fields
      heap0_head[of 17, simplified] head_frame[of 17, simplified] mem_eval)

lemma h5_5:
  "free (heap0\<lparr>mem_brk := 0x100810, sbrk_calls := 4, mem :=
      store64 (store64 (store64 (store64 (store64 (store64 (store64 (store64 (store64 (store64
      (store64 (store64 (store64 (store64 (store64 (mem heap0) 0x1003F8 3) 0x1000C8 811)
      0x1003F8 3) 0x100418 3) 0x1003F8 27) 0x100418 3) 0x100808 3) 0x100418 1003) 0x100808 3)
      0x1000C8 810) 0x1003F0 810) 0x1003F8 25) 0x100088 0x1000C8) 0x1000D0 0) 0x1000D8 0\<rparr>) 0x100420
   = heap0\<lparr>mem_brk := 0x100810, sbrk_calls := 4, mem :=
      store64 (store64 (store64 (store64 (store64 (store64 (store64 (store64 (store64 (store64
      (store64 (store64 (store64 (store64 (store64 (store64 (store64 (store64 (store64 (store64
      (store64 (store64 (mem heap0) 0x1003F8 3) 0x1000C8 811) 0x1003F8 3) 0x100418 3) 0x1003F8
      27) 0x100418 3) 0x100808 3) 0x100418 1003) 0x100808 3) 0x1000C8 810) 0x1003F0 810)
      0x1003F8 25) 0x100088 0x1000C8) 0x1000D0 0) 0x1000D8 0) 0x100418 1002) 0x100800 1002)
      0x100808 1) 0x1000D0 0x100418) 0x100088 0x100418) 0x100420 0) 0x100428 0x1000C8\<rparr>"
  by (simp add: free_def Let_def cc17 insertIntoFreeList_def heap0_fields
      heap0_head[of 17, simplified] head_frame[of 17, simplified] mem_eval)

lemma heap5_eq:
  "heap5 = heap0\<lparr>mem_brk := 0x100810, sbrk_calls := 4, mem :=
      store64 (store64 (store64 (store64 (store64 (store64 (store64 (store64 (store64 (store64
      (store64 (store64 (store64 (store64 (store64 (store64 (store64 (store64 (store64 (store64
      (store64 (store64 (mem heap0) 0x1003F8 3) 0x1000C8 811) 0x1003F8 3) 0x100418 3) 0x1003F8
      27) 0x100418 3) 0x100808 3) 0x100418 1003) 0x100808 3) 0x1000C8 810) 0x1003F0 810)
      0x1003F8 25) 0x100088 0x1000C8) 0x1000D0 0) 0x1000D8 0) 0x100418 1002) 0x100800 1002)
      0x100808 1) 0x1000D0 0x100418) 0x100088 0x100418) 0x100420 0) 0x100428 0x1000C8\<rparr>"
  by (simp add: heap5_def h5_1 h5_2 h5_3 h5_4 h5_5)

lemma heap5_fields:
  "initialized heap5" "heap_start heap5 = 0x100000" "mem_brk heap5 = 0x100810"
  "sbrk_calls heap5 = 4"
  by (simp_all add: heap5_eq heap0_fields)

lemma heap5_mem:
  "mem heap5 =
      store64 (store64 (store64 (store64 (store64 (store64 (store64 (store64 (store64 (store64
      (store64 (store64 (store64 (store64 (store64 (store64 (store64 (store64 (store64 (store64
      (store64 (store64 (mem heap0) 0x1003F8 3) 0x1000C8 811) 0x1003F8 3) 0x100418 3) 0x1003F8
      27) 0x100418 3) 0x100808 3) 0x100418 1003) 0x100808 3) 0x1000C8 810) 0x1003F0 810)
      0x1003F8 25) 0x100088 0x1000C8) 0x1000D0 0) 0x1000D8 0) 0x100418 1002) 0x100800 1002)
      0x100808 1) 0x1000D0 0x100418) 0x100088 0x100418) 0x100420 0) 0x100428 0x1000C8"
  by (simp add: heap5_eq)

lemma heap5_loads:
  "load64 (mem heap5) 0x100088 = 0x100418" "load64 (mem heap5) 0x100428 = 0x1000C8"
  "load64 (mem heap5) 0x1000D8 = 0" "load64 (mem heap5) 0x1000D0 = 0x100418"
  "getLength (mem heap5) 0x100418 = 1000" "getLength (mem heap5) 0x1000C8 = 808"
  "getLeftAllocated (mem heap5) 0x1000C8"
  by (simp_all add: heap5_mem mem_eval)

lemma heap5_list: "list_seg (mem heap5) 0x100418 [0x100418, 0x1000C8] 0"
  by (simp add: heap5_loads)

lemma heap5_search_712:
  "class_loop 0x100000 (mem heap5) 712 17 False = Some (Found 0x1000C8 808 17, [17])"
proof -
  have "\<exists>b\<in>set [0x100418, 0x1000C8].
      class_loop 0x100000 (mem heap5) 712 17 False = Some (Found b (getLength (mem heap5) b) 17, [17]) \<and>
      712 \<le> getLength (mem heap5) b \<and>
      (\<forall>x\<in>set [0x100418, 0x1000C8]. 712 \<le> getLength (mem heap5) x \<longrightarrow>
          getLength (mem heap5) b \<le> getLength (mem heap5) x)"
    by (rule range_class_best_fit[where h = "0x100418"])
       (simp_all add: heap5_loads del: list_seg.simps, rule heap5_list)
  then show ?thesis by (auto simp: heap5_loads)
qed

text \<open>
  \<^verbatim>\<open>malloc(700)\<close> on that heap: the block of length 808 is unlinked, its header becomes 715
  (length 712, allocated, left neighbour allocated), and the rest, a block of length 88, is
  released into class 5.
\<close>

lemma h5_6:
  "malloc heap5 700 = Some (0x1000D0, heap5\<lparr>mem :=
      store64 (store64 (store64 (store64 (store64 (store64 (store64 (store64 (store64 (store64
      (store64 (store64 (store64 (store64 (store64 (store64 (store64 (store64 (store64 (store64
      (store64 (store64 (store64 (store64 (store64 (store64 (store64 (store64 (store64 (store64
      (store64 (store64 (mem heap0) 0x1003F8 3) 0x1000C8 811) 0x1003F8 3) 0x100418 3) 0x1003F8
      27) 0x100418 3) 0x100808 3) 0x100418 1003) 0x100808 3) 0x1000C8 810) 0x1003F0 810)
      0x1003F8 25) 0x100088 0x1000C8) 0x1000D0 0) 0x1000D8 0) 0x100418 1002) 0x100800 1002)
      0x100808 1) 0x1000D0 0x100418) 0x100088 0x100418) 0x100420 0) 0x100428 0x1000C8) 0x100428
      0) 0x1000C8 715) 0x100398 90) 0x1003F0 90) 0x100398 90) 0x1003F0 90) 0x1003F8 25) 0x100028
      0x100398) 0x1003A0 0) 0x1003A8 0\<rparr>)"
proof -
  have "malloc heap5 700 = Some (allocateWithinHeap heap5 0x1000C8 (align_new 700) 808 17)"
    by (rule malloc_found[where tr = "[17]"])
       (simp_all add: heap5_fields align_new_def cc17 heap5_search_712)
  then show ?thesis
    by (simp add: align_new_def allocateWithinHeap_def removeFromFreeList_def free_def Let_def
        cc17 cc5 insertIntoFreeList_def heap5_fields heap5_loads heap5_mem heap0_fields
        heap0_head[of 5, simplified] head_frame[of 5, simplified] mem_eval)
qed

section \<open>Search policy, failure and initialisation\<close>

text \<open>
Claim C3. Let the class loop of \<^verbatim>\<open>malloc\<close> be at a class \<open>cls < 24\<close> whose list is not empty
  (its head \<open>h\<close> is not null). If \<open>cls < 16\<close> the search ends with the first block \<open>h\<close> of the
  list, whatever its length. If \<open>cls \<ge> 16\<close>: a block of exactly the required length ends the
  search as soon as the walk reaches it, and nothing behind it is read; and when the list is
  a null-terminated list \<open>bs\<close> holding a block of at least the required length, the search
  ends with a block of \<open>bs\<close> that is large enough and no longer than any other block of \<open>bs\<close>
  that is large enough. \<^verbatim>\<open>malloc\<close> allocates from the block \<open>a\<close> the search ends with: it
  returns the payload address \<open>a + 8\<close> of that block, changes nothing of the state but the
  memory (the arena does not grow), and when the block is not longer than required, the
  header of the block is afterwards the allocated header of the required length.
\<close>

theorem malloc_class_search:
  assumes "cls < 24" and "load64 m (hs + cls * 8) = h" and "h \<noteq> 0"
  shows "(cls < 16 \<longrightarrow> class_loop hs m req cls j = Some (Found h (getLength m h) cls, [cls])) \<and>
    (\<not> cls < 16 \<longrightarrow>
       (\<forall>xs b. list_seg m h xs b \<and> b \<noteq> 0 \<and> getLength m b = req \<and>
               (\<forall>x\<in>set xs. getLength m x \<noteq> req) \<longrightarrow>
          class_loop hs m req cls j = Some (Found b req cls, [cls]))) \<and>
    (\<not> cls < 16 \<longrightarrow>
       (\<forall>bs. list_seg m h bs 0 \<and> (\<exists>x\<in>set bs. req \<le> getLength m x) \<longrightarrow>
          (\<exists>b\<in>set bs. class_loop hs m req cls j = Some (Found b (getLength m b) cls, [cls]) \<and>
             req \<le> getLength m b \<and>
             (\<forall>x\<in>set bs. req \<le> getLength m x \<longrightarrow> getLength m b \<le> getLength m x)))) \<and>
    (\<forall>(st::state) sz a l c tr. initialized st \<and> sz \<noteq> 0 \<and>
        class_loop (heap_start st) (mem st) (align_new sz) (calculateClass_new (align_new sz))
          False = Some (Found a l c, tr) \<longrightarrow>
        malloc st sz = Some (allocateWithinHeap st a (align_new sz) l c) \<and>
        (\<exists>st'. malloc st sz = Some (a + 8, st') \<and> st' = st\<lparr>mem := mem st'\<rparr> \<and>
           (\<not> align_new sz < l \<and> l \<le> 0xFFFFFFFFFFFFFFE7 \<longrightarrow>
              load64 (mem st') a = encode (align_new sz) True (getLeftAllocated (mem st) a))))"
proof (intro conjI impI allI)
  assume "cls < 16"
  then have "scan_list m cls req (load64 m (hs + cls * 8)) 0 0 = Some (Hit h (getLength m h))"
    using assms(2,3) by (simp add: scan_list_exact_class)
  then show "class_loop hs m req cls j = Some (Found h (getLength m h) cls, [cls])"
    by (rule class_loop_hit[OF assms(1)])
next
  fix xs b
  assume c: "\<not> cls < 16"
    and "list_seg m h xs b \<and> b \<noteq> 0 \<and> getLength m b = req \<and> (\<forall>x\<in>set xs. getLength m x \<noteq> req)"
  then have "scan_list m cls req (load64 m (hs + cls * 8)) 0 0 = Some (Hit b req)"
    using scan_short_circuit[of m h xs b req cls 0 0] assms(2) by simp
  then show "class_loop hs m req cls j = Some (Found b req cls, [cls])"
    by (rule class_loop_hit[OF assms(1)])
next
  fix bs
  assume "\<not> cls < 16" and "list_seg m h bs 0 \<and> (\<exists>x\<in>set bs. req \<le> getLength m x)"
  then show "\<exists>b\<in>set bs. class_loop hs m req cls j = Some (Found b (getLength m b) cls, [cls]) \<and>
       req \<le> getLength m b \<and> (\<forall>x\<in>set bs. req \<le> getLength m x \<longrightarrow> getLength m b \<le> getLength m x)"
    using range_class_best_fit[OF assms(1) _ assms(2), of bs req j] by simp
next
  fix st :: state and sz a l c tr
  assume a: "initialized st \<and> sz \<noteq> 0 \<and>
        class_loop (heap_start st) (mem st) (align_new sz) (calculateClass_new (align_new sz))
          False = Some (Found a l c, tr)"
  then show m: "malloc st sz = Some (allocateWithinHeap st a (align_new sz) l c)"
    by (simp add: malloc_found)
  let ?st' = "snd (allocateWithinHeap st a (align_new sz) l c)"
  have f: "allocateWithinHeap st a (align_new sz) l c = (a + 8, st\<lparr>mem := mem ?st'\<rparr>)"
    by (rule allocateWithinHeap_frame)
  then have e: "?st' = st\<lparr>mem := mem ?st'\<rparr>" by (metis snd_conv)
  have h: "\<not> align_new sz < l \<and> l \<le> 0xFFFFFFFFFFFFFFE7 \<longrightarrow>
      load64 (mem ?st') a = encode (align_new sz) True (getLeftAllocated (mem st) a)"
    by (auto intro: allocateWithinHeap_header)
  from f have "malloc st sz = Some (a + 8, ?st')" unfolding m by (metis prod.collapse fst_conv)
  with e h show "\<exists>st'. malloc st sz = Some (a + 8, st') \<and> st' = st\<lparr>mem := mem st'\<rparr> \<and>
           (\<not> align_new sz < l \<and> l \<le> 0xFFFFFFFFFFFFFFE7 \<longrightarrow>
              load64 (mem st') a = encode (align_new sz) True (getLeftAllocated (mem st) a))"
    by blast
qed

text \<open>
The theorem on the example heap. Class 17 lists the block of length 1000 at \<open>0x100418\<close>
  and then the block of length 808 at \<open>0x1000C8\<close>. A search for 808 bytes walks past the
  first block and stops at the second; a search for 712 bytes, which both blocks can hold,
  ends with the second, the smaller one. \<^verbatim>\<open>malloc(808)\<close> returns the payload of that block
  and its header reads 811 (length 808, allocated, left neighbour allocated).
  \<^verbatim>\<open>malloc(700)\<close> returns the same payload, the header reads 715, the rest of the block has
  the free header 90 (length 88), and class 5, an exact class, now hands out that block
  first.
\<close>

theorem malloc_class_search_witness:
  "class_loop (heap_start heap5) (mem heap5) 808 17 False
     = Some (Found 0x1000C8 808 17, [17]) \<and>
   class_loop (heap_start heap5) (mem heap5) 712 17 False
     = Some (Found 0x1000C8 808 17, [17]) \<and>
   (\<exists>st'. malloc heap5 808 = Some (0x1000D0, st') \<and> mem_brk st' = mem_brk heap5 \<and>
          load64 (mem st') 0x1000C8 = 811) \<and>
   (\<exists>st'. malloc heap5 700 = Some (0x1000D0, st') \<and> mem_brk st' = mem_brk heap5 \<and>
          load64 (mem st') 0x1000C8 = 715 \<and> load64 (mem st') 0x100398 = 90 \<and>
          class_loop (heap_start st') (mem st') 88 5 False = Some (Found 0x100398 88 5, [5]))"
proof -
  have hd: "load64 (mem heap5) (heap_start heap5 + 17 * 8) = 0x100418"
    by (simp add: heap5_fields heap5_loads)
  note T = malloc_class_search[of 17 "mem heap5" "heap_start heap5" "0x100418", OF _ hd]
  have a: "class_loop (heap_start heap5) (mem heap5) 808 17 False
     = Some (Found 0x1000C8 808 17, [17])"
    using T[of 808 False, THEN conjunct2, THEN conjunct1, rule_format, of "[0x100418]" "0x1000C8"]
    by (simp add: heap5_loads)
  have "\<exists>b\<in>set [0x100418, 0x1000C8].
      class_loop (heap_start heap5) (mem heap5) 712 17 False
        = Some (Found b (getLength (mem heap5) b) 17, [17]) \<and>
      712 \<le> getLength (mem heap5) b \<and>
      (\<forall>x\<in>set [0x100418, 0x1000C8]. 712 \<le> getLength (mem heap5) x \<longrightarrow>
          getLength (mem heap5) b \<le> getLength (mem heap5) x)"
    using T[of 712 False, THEN conjunct2, THEN conjunct2, THEN conjunct1, rule_format,
        of "[0x100418, 0x1000C8]"] heap5_list
    by (simp add: heap5_loads del: list_seg.simps)
  then have b: "class_loop (heap_start heap5) (mem heap5) 712 17 False
     = Some (Found 0x1000C8 808 17, [17])"
    by (auto simp: heap5_loads)
  have al: "align_new 808 = 808" "align_new 700 = 712" by (simp_all add: align_new_def)
  have "\<exists>st'. malloc heap5 808 = Some (0x1000C8 + 8, st') \<and> st' = heap5\<lparr>mem := mem st'\<rparr> \<and>
      (\<not> align_new 808 < 808 \<and> (808 :: u64) \<le> 0xFFFFFFFFFFFFFFE7 \<longrightarrow>
         load64 (mem st') 0x1000C8 = encode (align_new 808) True (getLeftAllocated (mem heap5) 0x1000C8))"
    using T[of 808 False, THEN conjunct2, THEN conjunct2, THEN conjunct2, rule_format,
        of heap5 808 "0x1000C8" 808 17 "[17]", THEN conjunct2] a
    by (simp add: heap5_fields al cc17)
  then obtain st' where s: "malloc heap5 808 = Some (0x1000D0, st')" "st' = heap5\<lparr>mem := mem st'\<rparr>"
    "load64 (mem st') 0x1000C8 = 811"
    by (auto simp: al heap5_loads encode_def)
  from s(2) have "mem_brk st' = mem_brk heap5" by (metis state.select_convs(5) state.surjective state.update_convs(3))
  with s have c: "\<exists>st'. malloc heap5 808 = Some (0x1000D0, st') \<and> mem_brk st' = mem_brk heap5 \<and>
          load64 (mem st') 0x1000C8 = 811" by blast
  have hd5: "load64 (mem (snd (the (malloc heap5 700)))) (heap_start (snd (the (malloc heap5 700))) + 5 * 8)
      = 0x100398"
    by (simp add: h5_6 heap5_fields heap0_fields mem_eval)
  have "class_loop (heap_start (snd (the (malloc heap5 700)))) (mem (snd (the (malloc heap5 700)))) 88 5 False
      = Some (Found 0x100398 (getLength (mem (snd (the (malloc heap5 700)))) 0x100398) 5, [5])"
    using malloc_class_search[of 5 "mem (snd (the (malloc heap5 700)))"
        "heap_start (snd (the (malloc heap5 700)))" "0x100398" 88 False, OF _ hd5]
    by simp
  then have d: "\<exists>st'. malloc heap5 700 = Some (0x1000D0, st') \<and> mem_brk st' = mem_brk heap5 \<and>
          load64 (mem st') 0x1000C8 = 715 \<and> load64 (mem st') 0x100398 = 90 \<and>
          class_loop (heap_start st') (mem st') 88 5 False = Some (Found 0x100398 88 5, [5])"
    by (simp add: h5_6 heap5_fields heap0_fields mem_eval)
  from a b c d show ?thesis by blast
qed

text \<open>
Claim C4. In the list \<open>tr\<close> of the classes one call of \<^verbatim>\<open>malloc\<close> probes (the loop starts with
  \<^verbatim>\<open>jumped = false\<close>), each class is the one before plus one, but for the second, which is
  the first plus two when the first is below 16. A search that finds nothing, started at a
  class below 24, probes class 23 last.
\<close>

theorem class_search_advance:
  assumes "class_loop hs m req c0 False = Some (r, tr)"
  shows "(tr \<noteq> [] \<longrightarrow> hd tr = c0) \<and>
    (\<forall>i. Suc i < length tr \<longrightarrow>
       tr ! Suc i = tr ! i + (if i = 0 \<and> tr ! 0 < 16 then 2 else 1)) \<and>
    (r = NotFound \<and> c0 < 24 \<longrightarrow> tr \<noteq> [] \<and> last tr = 23) \<and>
    (\<forall>a l k. r = Found a l k \<longrightarrow> tr \<noteq> [] \<and> last tr = k)"
proof -
  have t: "trace_ok c0 False r tr" using assms by (rule class_loop_trace)
  have "tr ! Suc i = tr ! i + (if i = 0 \<and> tr ! 0 < 16 then 2 else 1)" if "Suc i < length tr" for i
  proof -
    from that have "tr \<noteq> []" by auto
    with t have "tr ! 0 = c0" by (simp add: trace_ok_def hd_conv_nth)
    with t that show ?thesis by (simp add: trace_ok_def)
  qed
  with t show ?thesis by (auto simp: trace_ok_def)
qed

text \<open>
The theorem on the heap right after initialisation, for a request of 24 bytes: the classes
  probed are 1, 3, 4, ..., 23.
\<close>

theorem class_search_advance_witness:
  "\<exists>tr. class_loop (heap_start heap0) (mem heap0) 24 1 False = Some (NotFound, tr) \<and>
        hd tr = 1 \<and> tr ! 1 = 3 \<and> tr ! 2 = 4 \<and> last tr = 23"
proof -
  have e: "class_loop (heap_start heap0) (mem heap0) 24 1 False
      = Some (NotFound, [1,3,4,5,6,7,8,9,10,11,12,13,14,15,16,17,18,19,20,21,22,23])"
    by (simp add: heap0_fields class_loop_heap0)
  from class_search_advance[OF e] e show ?thesis by simp
qed

text \<open>
Claim C6. When the search has gone through the classes without a block and the provider
  refuses the request, \<^verbatim>\<open>malloc\<close> returns null and the state is the one before the call, but for
  the count of growth requests, which is one more.
\<close>

theorem malloc_growth_failure:
  assumes "initialized st" and "sz \<noteq> 0"
    and "class_loop (heap_start st) (mem st) (align_new sz) (calculateClass_new (align_new sz))
           False = Some (NotFound, tr)"
    and "fst (mem_sbrk st (align_new sz + 8)) = None"
  shows "malloc st sz = Some (0, st\<lparr>sbrk_calls := Suc (sbrk_calls st)\<rparr>)"
proof -
  from assms(4) have "mem_sbrk st (align_new sz + 8) = (None, st\<lparr>sbrk_calls := Suc (sbrk_calls st)\<rparr>)"
    by (simp add: mem_sbrk_def split: if_splits)
  then show ?thesis
    by (simp add: malloc_not_found[OF assms(1-3)] allocateExtra_def sbrk_ptr_def Let_def)
qed

text \<open>
The theorem for a request of one megabyte on the initialised example heap, whose provider
  has one megabyte in all.
\<close>

theorem malloc_growth_failure_witness:
  "malloc heap0 0x100000 = Some (0, heap0\<lparr>sbrk_calls := 2\<rparr>)"
proof -
  have a: "align_new 0x100000 = 0x100008" "calculateClass_new 0x100008 = 23"
    by (simp_all add: align_new_def calculateClass_new_def)
  have c: "class_loop (heap_start heap0) (mem heap0) (align_new 0x100000)
             (calculateClass_new (align_new 0x100000)) False = Some (NotFound, [23])"
    by (simp add: a heap0_fields class_loop_heap0)
  have s: "fst (mem_sbrk heap0 (align_new 0x100000 + 8)) = None"
    by (simp add: a mem_sbrk_def heap0_fields)
  from malloc_growth_failure[OF _ _ c s] show ?thesis by (simp add: heap0_fields)
qed

text \<open>
Claim C7. \<^verbatim>\<open>malloc\<close> returns null and leaves the whole state, the arena memory included, as
  it is when the size is zero or the allocator is not initialised. Before initialisation the
  same holds for \<^verbatim>\<open>calloc\<close> and for \<^verbatim>\<open>realloc\<close> of the null pointer, and \<^verbatim>\<open>free\<close> of the null
  pointer does nothing. These are the calls that can be made before \<^verbatim>\<open>mm_init\<close>: no pointer
  but null has been handed out by then.
\<close>

theorem before_init_or_zero_size:
  "(\<not> initialized st \<or> sz = 0 \<longrightarrow> malloc st sz = Some (0, st)) \<and>
   (\<not> initialized st \<longrightarrow> calloc st nmemb sz = Some (0, st) \<and> realloc st 0 sz = Some (0, st)) \<and>
   free st 0 = st"
  by (simp add: malloc_def calloc_def realloc_def free_def)

text \<open>
The theorem on the example states.
\<close>

theorem before_init_or_zero_size_witness:
  "malloc fresh 24 = Some (0, fresh) \<and> malloc heap0 0 = Some (0, heap0) \<and>
   calloc fresh 3 8 = Some (0, fresh) \<and> realloc fresh 0 24 = Some (0, fresh) \<and>
   free fresh 0 = fresh"
  using before_init_or_zero_size[of fresh 24 3] before_init_or_zero_size[of fresh 8 3]
    before_init_or_zero_size[of heap0 0 3]
  by (simp add: fresh_def)
section \<open>Sizes that wrap\<close>

text \<open>
Claim C5 fails for sizes at which \<^verbatim>\<open>align_new\<close> wraps. On the heap right after
  initialisation, \<^verbatim>\<open>malloc(2\<^sup>6\<^sup>4 - 23)\<close> computes \<open>requiredBytes = 2\<^sup>6\<^sup>4 - 8\<close>, skips the class loop
  (the class index is \<open>2\<^sup>6\<^sup>4 - 1\<close>), asks the provider for 0 bytes, which succeeds, and
  returns the address one past the end of the arena; the sentinel's word is overwritten
  with the length \<open>2\<^sup>6\<^sup>4 - 8\<close>.
\<close>

theorem malloc_wrapped_size_leaves_arena:
  "case malloc heap0 0xFFFFFFFFFFFFFFE9 of
     None \<Rightarrow> False
   | Some (p, st) \<Rightarrow> p = 0x1000D0 \<and> \<not> in_heap st p \<and> mem_brk st = mem_brk heap0 \<and>
       load64 (mem heap0) 0x1000C8 = 3 \<and> load64 (mem st) 0x1000C8 = 0xFFFFFFFFFFFFFFFB"
proof -
  have m: "malloc heap0 0xFFFFFFFFFFFFFFE9 = Some (allocateExtra heap0 (- 8))"
    by (simp add: malloc_def heap0_fields align_new_def calculateClass_new_def class_loop_end)
  show ?thesis
    by (simp add: m in_heap_def heap0_eval)
qed

text \<open>
The evaluation above, read as: some pointer that is not null and not in the arena is
  returned.
\<close>

theorem malloc_wrapped_size_leaves_arena_witness:
  "\<exists>p st. malloc heap0 0xFFFFFFFFFFFFFFE9 = Some (p, st) \<and> p \<noteq> 0 \<and> \<not> in_heap st p"
  using malloc_wrapped_size_leaves_arena by (auto split: option.splits)

lemma malloc_heap0_24:
  "malloc heap0 24 = Some (allocateExtra heap0 24)"
  by (simp add: malloc_def heap0_fields align_new_def calculateClass_new_def class_loop_heap0)


lemma allocateExtra_heap0_24:
  "allocateExtra heap0 24 =
     (0x1000D0, heap0\<lparr>mem_brk := 0x1000F0, sbrk_calls := 2,
        mem := store64 (store64 (store64 (mem heap0) 0x1000E8 3) 0x1000C8 27) 0x1000E8 3\<rparr>)"
  by (simp add: heap0_eval)

text \<open>
Claim C8 fails for sizes at which \<^verbatim>\<open>align_new\<close> wraps. A block of 24 bytes is allocated and
  its three words are written; \<^verbatim>\<open>realloc(p, 2\<^sup>6\<^sup>4 - 7)\<close> computes the requested length 8, takes
  the shrinking path and returns \<open>p\<close>, and the second and third word of the payload now hold
  the header and footer of the split-off block.
\<close>

theorem realloc_wrapped_size_overwrites:
  "case malloc heap0 24 of
     None \<Rightarrow> False
   | Some (p, st1) \<Rightarrow>
       (case realloc (st1\<lparr>mem := store64 (store64 (store64 (mem st1) p 0x1111111111111111)
                                  (p + 8) 0x2222222222222222) (p + 16) 0x3333333333333333\<rparr>)
               p 0xFFFFFFFFFFFFFFF9 of
          None \<Rightarrow> False
        | Some (q, st3) \<Rightarrow> q = p \<and> q \<noteq> 0 \<and> getLength (mem st1) (p - 8) = 24 \<and>
            load64 (mem st3) q = 0x1111111111111111 \<and> load64 (mem st3) (q + 8) = 10 \<and>
            load64 (mem st3) (q + 16) = 10 \<and> getLength (mem st3) (q - 8) = 8)"
  by (simp add: malloc_heap0_24 allocateExtra_heap0_24 realloc_def align_new_def free_def
      calculateClass_new_def Let_def heap0_fields heap0_mem mem_eval)

text \<open>
The evaluation above, read as: the call succeeds with the same pointer and the second
  word of the old payload is lost.
\<close>

theorem realloc_wrapped_size_overwrites_witness:
  "\<exists>p st1 q st3. malloc heap0 24 = Some (p, st1) \<and>
     realloc (st1\<lparr>mem := store64 (store64 (store64 (mem st1) p 0x1111111111111111)
                            (p + 8) 0x2222222222222222) (p + 16) 0x3333333333333333\<rparr>)
       p 0xFFFFFFFFFFFFFFF9 = Some (q, st3) \<and> q = p \<and>
     load64 (mem st3) (q + 8) \<noteq> 0x2222222222222222"
  using realloc_wrapped_size_overwrites by (auto split: option.splits)

text \<open>
Claim C10. \<^verbatim>\<open>calloc(nmemb, size)\<close> is \<^verbatim>\<open>malloc\<close> of the product \<open>size * nmemb\<close> taken modulo
  \<open>2\<^sup>6\<^sup>4\<close>, followed on success by zeroing exactly that many bytes from the pointer. On the heap
  right after initialisation \<^verbatim>\<open>calloc(2\<^sup>6\<^sup>3 + 1, 2)\<close>, whose product \<open>2\<^sup>6\<^sup>4 + 2\<close> does not fit,
  returns a block of 8 bytes.
\<close>

theorem calloc_wraps:
  "calloc st nmemb sz =
     (case malloc st (sz * nmemb) of
        None \<Rightarrow> None
      | Some (p, st1) \<Rightarrow>
          Some (p, if p = 0 then st1
                   else st1\<lparr>mem := (\<lambda>a. if a - p < sz * nmemb then 0 else mem st1 a)\<rparr>)) \<and>
   (case calloc heap0 0x8000000000000001 2 of
      None \<Rightarrow> False
    | Some (p, st) \<Rightarrow> p = 0x1000D0 \<and> getLength (mem st) (p - 8) = 8 \<and>
        mem_brk st = 0x1000E0 \<and> mem st p = 0 \<and> mem st (p + 1) = 0) \<and>
   (2 :: nat) ^ 64 - 1 < 0x8000000000000001 * 2"
proof -
  have m: "malloc heap0 18446744073709551618 = Some (allocateExtra heap0 8)"
    by (simp add: malloc_def heap0_fields align_new_def calculateClass_new_def class_loop_heap0)
  have 1: "calloc st nmemb sz =
     (case malloc st (sz * nmemb) of
        None \<Rightarrow> None
      | Some (p, st1) \<Rightarrow>
          Some (p, if p = 0 then st1
                   else st1\<lparr>mem := (\<lambda>a. if a - p < sz * nmemb then 0 else mem st1 a)\<rparr>))"
    by (auto simp: calloc_def mem_memset_def split: option.splits)
  have 2: "case calloc heap0 0x8000000000000001 2 of
      None \<Rightarrow> False
    | Some (p, st) \<Rightarrow> p = 0x1000D0 \<and> getLength (mem st) (p - 8) = 8 \<and>
        mem_brk st = 0x1000E0"
    by (simp add: calloc_def m heap0_eval)
  have 3: "case calloc heap0 0x8000000000000001 2 of
      None \<Rightarrow> False
    | Some (p, st) \<Rightarrow> mem st p = 0 \<and> mem st (p + 1) = 0"
    by (simp add: calloc_def m heap0_eval mem_memset_def)
  have 23: "case calloc heap0 0x8000000000000001 2 of
      None \<Rightarrow> False
    | Some (p, st) \<Rightarrow> p = 0x1000D0 \<and> getLength (mem st) (p - 8) = 8 \<and>
        mem_brk st = 0x1000E0 \<and> mem st p = 0 \<and> mem st (p + 1) = 0"
    using 2 3 by (auto split: option.splits)
  show ?thesis by (intro conjI, rule 1, rule 23, simp)
qed

text \<open>
The evaluation above, read as: the call returns a pointer that is not null to a block of
  length 8.
\<close>

theorem calloc_wraps_witness:
  "\<exists>p st. calloc heap0 0x8000000000000001 2 = Some (p, st) \<and> p \<noteq> 0 \<and>
     getLength (mem st) (p - 8) = 8"
  using calloc_wraps[of heap0 2 2] by (auto split: option.splits)

section \<open>Addresses as natural numbers, headers, link fields\<close>

lemma pb3_and_small:
  assumes "f < (8::u64)"
  shows "push_bit 3 (k::u64) AND f = 0"
proof -
  have "take_bit 3 f = f"
    using assms less_mask_eq[of f 3] by (simp add: take_bit_eq_mask)
  moreover have "push_bit 3 k AND take_bit 3 f = 0"
    by (rule bit_word_eqI) (auto simp add: bit_simps)
  ultimately show ?thesis by simp
qed

lemma pb3_or_small: "f < (8::u64) \<Longrightarrow> push_bit 3 (k::u64) OR f = push_bit 3 k + f"
  by (simp add: disjunctive_add_eq_or pb3_and_small)

lemma A_add_num [simp]: "A x + numeral k = A (x + numeral k)"
  by (simp add: A_def)

lemma A_add [simp]: "A x + A y = A (x + y)"
  by (simp add: A_def)

lemma A_num [simp]: "A (numeral k) = numeral k" "A 0 = 0"
  by (simp_all add: A_def)

lemma A_sub_num [simp]: "numeral k \<le> x \<Longrightarrow> A x - numeral k = A (x - numeral k)"
  by (simp add: A_def)

lemma A_sub [simp]: "y \<le> x \<Longrightarrow> A x - A y = A (x - y)"
  by (simp add: A_def)


lemma unat_A [simp]: "x < 2 ^ 64 \<Longrightarrow> unat (A x) = x"
  by (simp add: A_def unat_of_nat)

lemma A_unat [simp]: "A (unat w) = w"
  by (simp add: A_def)

lemma A_inj [simp]: "x < 2 ^ 64 \<Longrightarrow> y < 2 ^ 64 \<Longrightarrow> A x = A y \<longleftrightarrow> x = y"
  by (metis unat_A)

lemma A_eq_0 [simp]: "x < 2 ^ 64 \<Longrightarrow> A x = 0 \<longleftrightarrow> x = 0"
  using A_inj[of x 0] by simp


lemma A_le [simp]: "x < 2 ^ 64 \<Longrightarrow> y < 2 ^ 64 \<Longrightarrow> A x \<le> A y \<longleftrightarrow> x \<le> y"
  by (simp add: word_le_nat_alt)

lemma aligned_room: "x mod 8 = 0 \<Longrightarrow> x < 2 ^ 64 \<Longrightarrow> x + 8 \<le> (2::nat) ^ 64"
proof -
  assume a: "x mod 8 = 0" "x < 2 ^ 64"
  then obtain k where k: "x = 8 * k" by (metis mod_0_imp_dvd dvdE)
  with a have "k < 2 ^ 61" by simp
  then have "k + 1 \<le> 2 ^ 61" by simp
  then have "8 * (k + 1) \<le> 8 * 2 ^ 61" by (rule mult_le_mono2)
  with k show ?thesis by simp
qed

lemma load_store_A:
  assumes "x mod 8 = 0" "y mod 8 = 0" "x < 2 ^ 64" "y < 2 ^ 64"
  shows "load64 (store64 m (A x) v) (A y) = (if x = y then v else load64 m (A y))"
proof (cases "x = y")
  case True then show ?thesis by simp
next
  case False
  note rx = aligned_room[OF assms(1,3)] and ry = aligned_room[OF assms(2,4)]
  have d: "x < y \<Longrightarrow> 8 \<le> y - x" "y < x \<Longrightarrow> 8 \<le> x - y"
    using assms(1,2) by presburger+
  have 1: "8 \<le> A y - A x"
  proof (cases "x \<le> y")
    case True
    with False d have "8 \<le> y - x" by simp
    moreover from True assms have "unat (A y - A x) = y - x" by simp
    ultimately show ?thesis by (simp add: word_le_nat_alt)
  next
    case F: False
    then have "unat (A y - A x) = y + 2 ^ 64 - x"
      using assms by (simp add: unat_sub_if_size word_size)
    with F rx show ?thesis by (simp add: word_le_nat_alt)
  qed
  have 2: "8 \<le> A x - A y"
  proof (cases "y \<le> x")
    case True
    with False d have "8 \<le> x - y" by simp
    moreover from True assms have "unat (A x - A y) = x - y" by simp
    ultimately show ?thesis by (simp add: word_le_nat_alt)
  next
    case F: False
    then have "unat (A x - A y) = x + 2 ^ 64 - y"
      using assms by (simp add: unat_sub_if_size word_size)
    with F ry show ?thesis by (simp add: word_le_nat_alt)
  qed
  from False show ?thesis by (simp add: load64_store64_disj[OF 1 2])
qed

lemma A_push_bit3: "n mod 8 = 0 \<Longrightarrow> A n = push_bit 3 (A (n div 8))"
proof -
  assume "n mod 8 = 0"
  then have "n = n div 8 * 8" by presburger
  then have "A n = A (n div 8 * 8)" by simp
  also have "\<dots> = push_bit 3 (A (n div 8))" by (simp add: A_def push_bit_eq_mult)
  finally show ?thesis .
qed

lemma A_or_small:
  assumes "n mod 8 = 0" and "f < 8"
  shows "A n OR A f = A (n + f)"
proof -
  have "A f < (8 :: u64)"
    using assms(2) by (simp add: word_less_nat_alt)
  then have "push_bit 3 (A (n div 8)) OR A f = push_bit 3 (A (n div 8)) + A f"
    by (rule pb3_or_small)
  then have "A n OR A f = A n + A f"
    by (simp only: A_push_bit3[OF assms(1), symmetric])
  then show ?thesis by (simp only: A_add)
qed

lemma encode_plus:
  assumes "n mod 8 = 0"
  shows "encode (A n) False False = A n" "encode (A n) True False = A (n + 1)"
    "encode (A n) False True = A (n + 2)" "encode (A n) True True = A (n + 3)"
proof -
  have n1: "(1::u64) = A 1" and n2: "(2::u64) = A 2" and n3: "(3::u64) = A 3"
    by (simp_all add: A_def)
  have 1: "A n OR 1 = A (n + 1)" unfolding n1 by (rule A_or_small[OF assms]) simp
  have 2: "A n OR 2 = A (n + 2)" unfolding n2 by (rule A_or_small[OF assms]) simp
  have a: "(1 OR 2 :: u64) = 3" by simp
  have b: "A n OR 3 = A (n + 3)" unfolding n3 by (rule A_or_small[OF assms]) simp
  have "(A n OR 1) OR 2 = A n OR (1 OR 2)" by (simp only: or.assoc)
  then have 3: "(A n OR 1) OR 2 = A (n + 3)" by (simp only: a b)
  show "encode (A n) False False = A n" by (simp only: encode_def Let_def if_False)
  show "encode (A n) True False = A (n + 1)"
    by (simp only: encode_def Let_def if_False if_True 1)
  show "encode (A n) False True = A (n + 2)"
    by (simp only: encode_def Let_def if_False if_True 2)
  show "encode (A n) True True = A (n + 3)"
    by (simp only: encode_def Let_def if_False if_True 3)
qed

lemma encode_cases:
  assumes "n mod 8 = 0"
  shows "\<exists>f < 4. encode (A n) al pa = A (n + f) \<and> (odd f \<longleftrightarrow> al) \<and> (2 \<le> f \<longleftrightarrow> pa)"
proof (cases al)
  case True
  note al = this
  show ?thesis
  proof (cases pa)
    case True
    with al encode_plus(4)[OF assms] show ?thesis by (intro exI[of _ 3]) simp
  next
    case False
    with al encode_plus(2)[OF assms] show ?thesis by (intro exI[of _ 1]) simp
  qed
next
  case False
  note al = this
  show ?thesis
  proof (cases pa)
    case True
    with al encode_plus(3)[OF assms] show ?thesis by (intro exI[of _ 2]) simp
  next
    case False
    with al encode_plus(1)[OF assms] show ?thesis by (intro exI[of _ 0]) simp
  qed
qed

lemma decode_small:
  assumes "n mod 8 = 0" "n < 2 ^ 64" "f < 4"
  shows "(A (n + f) div 8) * 8 = A n"
    and "A (n + f) mod 2 = 1 \<longleftrightarrow> odd f"
    and "(A (n + f) mod 4 = 2 \<or> A (n + f) mod 4 = 3) \<longleftrightarrow> 2 \<le> f"
proof -
  have r: "n + 8 \<le> 2 ^ 64" using assms(1,2) by (rule aligned_room)
  then have lt: "n + f < 2 ^ 64" using assms(3) by simp
  have "(n + f) div 8 * 8 = n" using assms(1,3) by presburger
  moreover have "unat (A (n + f) div 8) = (n + f) div 8" using lt by (simp add: unat_div)
  ultimately have "unat ((A (n + f) div 8) * 8) = n"
    using assms(2) by (simp add: unat_word_ariths)
  then show "(A (n + f) div 8) * 8 = A n" by (metis A_unat)
  have "unat (A (n + f) mod 2) = (n + f) mod 2" using lt by (simp add: unat_mod)
  moreover have "(n + f) mod 2 = f mod 2" using assms(1) by presburger
  ultimately have "unat (A (n + f) mod 2) = f mod 2" by simp
  then show "A (n + f) mod 2 = 1 \<longleftrightarrow> odd f"
    by (simp add: word_unat_eq_iff odd_iff_mod_2_eq_one)
  have "unat (A (n + f) mod 4) = (n + f) mod 4" using lt by (simp add: unat_mod)
  moreover have "(n + f) mod 4 = f" using assms(1,3) by presburger
  ultimately have "unat (A (n + f) mod 4) = f" by simp
  then show "(A (n + f) mod 4 = 2 \<or> A (n + f) mod 4 = 3) \<longleftrightarrow> 2 \<le> f"
    using assms(3) by (auto simp add: word_unat_eq_iff)
qed

lemma decode_encode:
  assumes "n mod 8 = 0" "n < 2 ^ 64"
  shows "(encode (A n) al pa div 8) * 8 = A n"
    and "encode (A n) al pa mod 2 = 1 \<longleftrightarrow> al"
    and "(encode (A n) al pa mod 4 = 2 \<or> encode (A n) al pa mod 4 = 3) \<longleftrightarrow> pa"
proof -
  from encode_cases[OF assms(1), of al pa] obtain f where
    f: "f < 4" "encode (A n) al pa = A (n + f)" "odd f \<longleftrightarrow> al" "2 \<le> f \<longleftrightarrow> pa"
    by blast
  show "(encode (A n) al pa div 8) * 8 = A n"
    unfolding f(2) by (rule decode_small(1)[OF assms f(1)])
  show "encode (A n) al pa mod 2 = 1 \<longleftrightarrow> al"
    unfolding f(2) using decode_small(2)[OF assms f(1)] f(3) by simp
  show "(encode (A n) al pa mod 4 = 2 \<or> encode (A n) al pa mod 4 = 3) \<longleftrightarrow> pa"
    unfolding f(2) using decode_small(3)[OF assms f(1)] f(4) by simp
qed

lemma al8_add [simp]: "al8 x \<Longrightarrow> al8 y \<Longrightarrow> al8 (x + y)"
  unfolding al8_def by presburger

lemma al8_add_num [simp]: "al8 x \<Longrightarrow> numeral k mod 8 = (0::nat) \<Longrightarrow> al8 (x + numeral k)"
  by (rule al8_add) (simp_all add: al8_def)

lemma al8_diff [simp]: "al8 x \<Longrightarrow> al8 y \<Longrightarrow> al8 (x - y)"
  unfolding al8_def by presburger

lemma al8_mult [simp]: "al8 (8 * c)" "al8 (c * 8)"
  unfolding al8_def by simp_all

lemma al8_0 [simp]: "al8 0"
  unfolding al8_def by simp

lemma al8_num [simp]: "numeral k mod 8 = (0::nat) \<Longrightarrow> al8 (numeral k)"
  unfolding al8_def by simp

lemma vaI: "al8 x \<Longrightarrow> x < 2 ^ 64 \<Longrightarrow> va x"
  by (simp add: va_def)

lemma va_less: "va x \<Longrightarrow> al8 y \<Longrightarrow> y \<le> x \<Longrightarrow> va y"
  by (simp add: va_def)

lemma ld_st [simp]:
  "va x \<Longrightarrow> va y \<Longrightarrow>
   load64 (store64 m (A x) v) (A y) = (if x = y then v else load64 m (A y))"
  unfolding al8_def va_def by (rule load_store_A) simp_all






lemma load64_A_unat: "load64 m (A x) = A (unat (load64 m (A x)))"
  by simp


lemma unat_lt64' [simp]: "unat (w :: u64) < 18446744073709551616"
  using unsigned_less[of w] by simp



section \<open>Insertion into and removal from a class list\<close>









section \<open>Block layouts and frames\<close>













lemma same_on_refl [simp]: "same_on X m m"
  by (simp add: same_on_def)























section \<open>The release engine on a well-formed heap\<close>


lemma getLength_A:
  assumes "load64 m p = encode (A n) al pa" "al8 n" "n < 2 ^ 64"
  shows "getLength m p = A n"
proof -
  have n: "n mod 8 = 0" using assms(2) by (simp only: al8_def)
  show ?thesis
    unfolding getLength_def assms(1) by (rule decode_encode(1)[OF n assms(3)])
qed

lemma getLeftAllocated_A:
  assumes "load64 m p = encode (A n) al pa" "al8 n" "n < 2 ^ 64"
  shows "getLeftAllocated m p = pa"
proof -
  have n: "n mod 8 = 0" using assms(2) by (simp only: al8_def)
  show ?thesis
    unfolding getLeftAllocated_def Let_def assms(1)
    by (simp only: decode_encode[OF n assms(3)])
qed
















lemma seg_first_alloc: "seg m n False ((b, l, al) # r) E pe \<Longrightarrow> al"
  by auto


lemma seg_Nil_flag: "seg m a pa [] e pe \<Longrightarrow> pe = pa"
  by simp

















lemma mem_upd [simp]: "mem (st\<lparr>mem := m\<rparr>) = m"
  by simp


section \<open>Release merges free neighbours\<close>







end
